theory Spec2Isabelle
  imports Main "HOL-Library.Log_Nat" "HOL-Library.AList" "HOL-Library.Sublist"
begin

section \<open>Numbers: IEEE 754 binary64 arithmetic on finite values\<close>

text \<open>
  The relevance score of \<^verbatim>\<open>src/index.ts\<close> is a JavaScript number, that is an IEEE 754
  binary64 value. Every finite binary64 value is a rational, so a score is modelled as a
  \<open>rat\<close> and every arithmetic operation of the source is the exact operation followed by
  rounding to the nearest binary64 value, ties to even (\<open>round_double\<close>). Subnormal
  results are rounded on the fixed grid \<open>2 ^ -1074\<close>. Overflow to \<open>Infinity\<close> is not
  modelled: it needs a value of at least \<open>2 ^ 1024\<close>, and the scores of this program are
  sums of a few small integers per query word and per context file.
\<close>

definition pow2 :: "int \<Rightarrow> rat" where
  "pow2 e = (if 0 \<le> e then 2 ^ nat e else 1 / 2 ^ nat (- e))"

text \<open>\<open>ilog2 a\<close> is \<open>\<lfloor>log\<^sub>2 a\<rfloor>\<close> for a positive rational \<open>a\<close>.\<close>

definition ilog2 :: "rat \<Rightarrow> int" where
  "ilog2 a = (case quotient_of a of (p, q) \<Rightarrow>
     (let d = bitlen p - bitlen q in if pow2 d \<le> a then d else d - 1))"

definition round_half_even :: "rat \<Rightarrow> int" where
  "round_half_even x = (let f = \<lfloor>x\<rfloor>; r = x - of_int f
     in if r < 1 / 2 then f else if 1 / 2 < r then f + 1 else if even f then f else f + 1)"

definition round_double :: "rat \<Rightarrow> rat" where
  "round_double x = (if x = 0 then 0 else
     (let a = \<bar>x\<bar>; q = pow2 (max (ilog2 a) (- 1022) - 52)
      in sgn x * of_int (round_half_even (a / q)) * q))"

definition fadd :: "rat \<Rightarrow> rat \<Rightarrow> rat" where
  "fadd a b = round_double (a + b)"

definition fmul :: "rat \<Rightarrow> rat \<Rightarrow> rat" where
  "fmul a b = round_double (a * b)"

text \<open>The decimal literals \<^verbatim>\<open>0.5\<close>, \<^verbatim>\<open>0.7\<close> and \<^verbatim>\<open>0.8\<close> denote the nearest binary64 values.\<close>

definition lit_0_5 :: rat where "lit_0_5 = round_double (5 / 10)"
definition lit_0_7 :: rat where "lit_0_7 = round_double (7 / 10)"
definition lit_0_8 :: rat where "lit_0_8 = round_double (8 / 10)"


section \<open>Strings\<close>

text \<open>
  A JavaScript string is a sequence of UTF-16 code units, and \<^verbatim>\<open>length\<close> counts code
  units. A string is modelled as the list of its code units, each an integer (from 0 to
  65535 in a real string; nothing here depends on these bounds). \<open>js\<close> reads an ASCII
  literal as such a list.
\<close>

type_synonym jsstring = "int list"

definition js :: "string \<Rightarrow> jsstring" where
  "js s = map of_char s"

text \<open>
  \<^verbatim>\<open>String.prototype.toLowerCase\<close>, code unit by code unit. The table holds the ASCII
  capitals, the capitals of Latin-1, and the two characters outside ASCII whose lower
  case contains an ASCII letter: U+0130 (304) becomes \<^verbatim>\<open>i\<close> followed by U+0307, and U+212A
  (8490, the Kelvin sign) becomes \<^verbatim>\<open>k\<close>. Every other cased character of Unicode has a lower
  case without ASCII code units. The program uses a lower-cased string in three ways
  only: it searches it for ASCII words, compares it with an ASCII name, and reads its runs
  of ASCII word characters; none of them tells such a character from its lower case, so
  leaving it as it is gives the scores of the source.
\<close>

definition lower_unit :: "int \<Rightarrow> jsstring" where
  "lower_unit n =
     (if (65 \<le> n \<and> n \<le> 90) \<or> (192 \<le> n \<and> n \<le> 222 \<and> n \<noteq> 215) then [n + 32]
      else if n = 304 then [105, 775]
      else if n = 8490 then [107]
      else [n])"

definition toLowerCase :: "jsstring \<Rightarrow> jsstring" where
  "toLowerCase s = concat (map lower_unit s)"

text \<open>\<^verbatim>\<open>String.prototype.includes\<close>: \<open>w\<close> occurs in \<open>s\<close> as a contiguous substring.\<close>

fun str_includes :: "jsstring \<Rightarrow> jsstring \<Rightarrow> bool" where
  "str_includes [] w = (w = [])"
| "str_includes (c # s) w = (take (length w) (c # s) = w \<or> str_includes s w)"

text \<open>
  \<^verbatim>\<open>path.basename\<close> of Node.js with the POSIX separator \<^verbatim>\<open>/\<close> (code unit 47): trailing
  separators are dropped, then the part after the last separator is returned.
\<close>

definition basename :: "jsstring \<Rightarrow> jsstring" where
  "basename p = rev (takeWhile (\<lambda>c. c \<noteq> 47) (dropWhile (\<lambda>c. c = 47) (rev p)))"


section \<open>Regular expressions of the extractor\<close>

text \<open>
  The character classes that occur in the patterns of \<^verbatim>\<open>extractImports\<close> and in the
  tokenizer of \<^verbatim>\<open>calculateRelevance\<close>, with the ECMAScript meaning on code units (no
  \<^verbatim>\<open>i\<close>, \<^verbatim>\<open>u\<close> or \<^verbatim>\<open>s\<close> flag). \<^verbatim>\<open>\w\<close> is \<^verbatim>\<open>[A-Za-z0-9_]\<close>. \<^verbatim>\<open>\s\<close> is the white space and the
  line terminators of ECMAScript: U+0009 to U+000D, U+0020, U+00A0, U+1680, U+2000 to
  U+200A, U+2028, U+2029, U+202F, U+205F, U+3000 and U+FEFF.
\<close>

definition is_word :: "int \<Rightarrow> bool" where
  "is_word n = ((48 \<le> n \<and> n \<le> 57) \<or> (65 \<le> n \<and> n \<le> 90) \<or> n = 95 \<or> (97 \<le> n \<and> n \<le> 122))"

definition is_space :: "int \<Rightarrow> bool" where
  "is_space n =
     ((9 \<le> n \<and> n \<le> 13) \<or> n = 32 \<or> n = 160 \<or> n = 5760 \<or> (8192 \<le> n \<and> n \<le> 8202)
      \<or> n = 8232 \<or> n = 8233 \<or> n = 8239 \<or> n = 8287 \<or> n = 12288 \<or> n = 65279)"

text \<open>The quotes \<^verbatim>\<open>'\<close> (39) and \<^verbatim>\<open>"\<close> (34).\<close>

definition is_quote :: "int \<Rightarrow> bool" where
  "is_quote n = (n = 39 \<or> n = 34)"

datatype cls =
    Space       \<comment> \<open>\<^verbatim>\<open>\s\<close>\<close>
  | DotWord     \<comment> \<open>\<^verbatim>\<open>[.\w]\<close>\<close>
  | ColonWord   \<comment> \<open>\<^verbatim>\<open>[:\w]\<close>\<close>
  | Quote       \<comment> \<open>\<^verbatim>\<open>['"]\<close>\<close>
  | NotQuote    \<comment> \<open>\<^verbatim>\<open>[^'"]\<close>\<close>
  | AnyChar     \<comment> \<open>\<^verbatim>\<open>.\<close>: anything but a line terminator\<close>
  | LtDq        \<comment> \<open>\<^verbatim>\<open>[<"]\<close>\<close>
  | GtDq        \<comment> \<open>\<^verbatim>\<open>[>"]\<close>\<close>
  | NotGtDq     \<comment> \<open>\<^verbatim>\<open>[^>"]\<close>\<close>

text \<open>
  The code units used: \<^verbatim>\<open>.\<close> is 46, \<^verbatim>\<open>:\<close> is 58, \<^verbatim>\<open><\<close> is 60, \<^verbatim>\<open>>\<close> is 62, \<^verbatim>\<open>"\<close> is 34; the
  line terminators are 10, 13, 8232 and 8233.
\<close>

fun in_cls :: "cls \<Rightarrow> int \<Rightarrow> bool" where
  "in_cls Space c = is_space c"
| "in_cls DotWord c = (c = 46 \<or> is_word c)"
| "in_cls ColonWord c = (c = 58 \<or> is_word c)"
| "in_cls Quote c = is_quote c"
| "in_cls NotQuote c = (\<not> is_quote c)"
| "in_cls AnyChar c = (c \<noteq> 10 \<and> c \<noteq> 13 \<and> c \<noteq> 8232 \<and> c \<noteq> 8233)"
| "in_cls LtDq c = (c = 60 \<or> c = 34)"
| "in_cls GtDq c = (c = 62 \<or> c = 34)"
| "in_cls NotGtDq c = (c \<noteq> 62 \<and> c \<noteq> 34)"

text \<open>
  A pattern is a sequence of atoms: a literal, one character of a class, a greedy
  \<^verbatim>\<open>+\<close> or \<^verbatim>\<open>*\<close> over a class, or the capture group \<^verbatim>\<open>(C+)\<close> over a class. Every pattern
  of the source has this shape, with exactly one capture group.
\<close>

datatype atom = Lit jsstring | One cls | Plus cls | Star cls | CapPlus cls

text \<open>
  \<open>try_down f lo k\<close> is the backtracking of a greedy quantifier: it tries the
  repetition counts \<open>k, k - 1, \<dots>, lo\<close> in this order and keeps the first one for which the
  rest of the pattern matches.
\<close>

fun try_down :: "(nat \<Rightarrow> 'a option) \<Rightarrow> nat \<Rightarrow> nat \<Rightarrow> 'a option" where
  "try_down f lo 0 = (if 0 < lo then None else f 0)"
| "try_down f lo (Suc k) =
     (if Suc k < lo then None
      else (case f (Suc k) of Some r \<Rightarrow> Some r | None \<Rightarrow> try_down f lo k))"

definition run_length :: "cls \<Rightarrow> jsstring \<Rightarrow> nat" where
  "run_length c s = length (takeWhile (in_cls c) s)"

text \<open>
  \<open>match_at p s cap\<close> matches the pattern \<open>p\<close> at the start of \<open>s\<close>; the result is the
  value of capture group 1 (\<open>None\<close> is \<^verbatim>\<open>undefined\<close>) and the input left after the match.
\<close>

fun match_at :: "atom list \<Rightarrow> jsstring \<Rightarrow> jsstring option \<Rightarrow> (jsstring option \<times> jsstring) option" where
  "match_at [] s cap = Some (cap, s)"
| "match_at (Lit l # p) s cap =
     (if take (length l) s = l then match_at p (drop (length l) s) cap else None)"
| "match_at (One c # p) s cap =
     (case s of [] \<Rightarrow> None | x # xs \<Rightarrow> if in_cls c x then match_at p xs cap else None)"
| "match_at (Plus c # p) s cap =
     try_down (\<lambda>k. match_at p (drop k s) cap) 1 (run_length c s)"
| "match_at (Star c # p) s cap =
     try_down (\<lambda>k. match_at p (drop k s) cap) 0 (run_length c s)"
| "match_at (CapPlus c # p) s cap =
     try_down (\<lambda>k. match_at p (drop k s) (Some (take k s))) 1 (run_length c s)"

text \<open>
  \<^verbatim>\<open>RegExp.prototype.exec\<close>: the leftmost position where the pattern matches. The input
  is the part of the string from \<^verbatim>\<open>lastIndex\<close> on (the patterns have no anchor and no
  look-behind, so what precedes \<^verbatim>\<open>lastIndex\<close> does not matter); the result carries the
  part of the string after the match, which is where the new \<^verbatim>\<open>lastIndex\<close> points.
\<close>

fun exec :: "atom list \<Rightarrow> jsstring \<Rightarrow> (jsstring option \<times> jsstring) option" where
  "exec p [] = match_at p [] None"
| "exec p (x # xs) =
     (case match_at p (x # xs) None of Some r \<Rightarrow> Some r | None \<Rightarrow> exec p xs)"


section \<open>The import extractor\<close>

text \<open>\<^verbatim>\<open>Set.prototype.add\<close> on a set kept in insertion order.\<close>

definition set_add :: "jsstring \<Rightarrow> jsstring list \<Rightarrow> jsstring list" where
  "set_add x xs = (if x \<in> set xs then xs else xs @ [x])"

text \<open>
  The loop \<^verbatim>\<open>while ((match = pattern.exec(content)) !== null)\<close> of a global pattern. A
  match with an empty or undefined group 1 is skipped. An empty match would leave
  \<^verbatim>\<open>lastIndex\<close> where it is and the loop would never end: the function is partial, and
  \<open>None\<close> is the loop that does not return.
\<close>

partial_function (option) exec_loop :: "atom list \<Rightarrow> jsstring \<Rightarrow> jsstring list \<Rightarrow> jsstring list option" where
  "exec_loop p s acc =
     (case exec p s of
        None \<Rightarrow> Some acc
      | Some r \<Rightarrow> exec_loop p (snd r)
          (case fst r of None \<Rightarrow> acc | Some g \<Rightarrow> if g = [] then acc else set_add g acc))"

declare exec_loop.simps [code]

fun run_patterns :: "atom list list \<Rightarrow> jsstring \<Rightarrow> jsstring list \<Rightarrow> jsstring list option" where
  "run_patterns [] s acc = Some acc"
| "run_patterns (p # ps) s acc =
     (case exec_loop p s acc of None \<Rightarrow> None | Some acc' \<Rightarrow> run_patterns ps s acc')"

definition py_patterns :: "atom list list" where
  "py_patterns =
     [[Lit (js ''from''), Plus Space, CapPlus DotWord, Plus Space, Lit (js ''import'')],
      [Lit (js ''import''), Plus Space, CapPlus DotWord]]"

definition js_patterns :: "atom list list" where
  "js_patterns =
     [[Lit (js ''from''), Plus Space, One Quote, CapPlus NotQuote, One Quote],
      [Lit (js ''require(''), One Quote, CapPlus NotQuote, One Quote, Lit (js '')'')],
      [Lit (js ''import''), Plus Space, One Quote, CapPlus NotQuote, One Quote],
      [Lit (js ''import''), Plus Space, Star AnyChar, Plus Space, Lit (js ''from''), Plus Space,
       One Quote, CapPlus NotQuote, One Quote]]"

definition java_patterns :: "atom list list" where
  "java_patterns = [[Lit (js ''import''), Plus Space, CapPlus DotWord, Lit (js '';'')]]"

definition go_patterns :: "atom list list" where
  "go_patterns = [[Lit (js ''import''), Plus Space, One Quote, CapPlus NotQuote, One Quote]]"

definition rs_patterns :: "atom list list" where
  "rs_patterns = [[Lit (js ''use''), Plus Space, CapPlus ColonWord]]"

definition c_patterns :: "atom list list" where
  "c_patterns = [[Lit (js ''#include''), Plus Space, One LtDq, CapPlus NotGtDq, One GtDq]]"

text \<open>The \<^verbatim>\<open>switch (extension)\<close>; \<open>None\<close> is the \<^verbatim>\<open>default\<close> branch.\<close>

definition patterns_for :: "jsstring \<Rightarrow> atom list list option" where
  "patterns_for extension =
     (if extension = (js ''.py'') then Some py_patterns
      else if extension \<in> set [(js ''.js''), (js ''.ts''), (js ''.jsx''), (js ''.tsx''), (js ''.vue''), (js ''.svelte'')]
        then Some js_patterns
      else if extension = (js ''.java'') then Some java_patterns
      else if extension = (js ''.go'') then Some go_patterns
      else if extension = (js ''.rs'') then Some rs_patterns
      else if extension \<in> set [(js ''.cpp''), (js ''.c''), (js ''.h''), (js ''.hpp'')] then Some c_patterns
      else None)"

text \<open>
  \<^verbatim>\<open>extractImports\<close>. The result is the set in insertion order; \<open>None\<close> would be a call
  that does not return.
\<close>

definition extractImports :: "jsstring \<Rightarrow> jsstring \<Rightarrow> jsstring list option" where
  "extractImports content extension =
     (case patterns_for extension of
        None \<Rightarrow> Some []
      | Some patterns \<Rightarrow> run_patterns patterns content [])"

text \<open>
  A pattern is consuming when each of its matches takes at least one character: then
  \<^verbatim>\<open>lastIndex\<close> advances at every round of the loop.
\<close>

definition consuming :: "atom list \<Rightarrow> bool" where
  "consuming p = (\<forall>s cap r. match_at p s cap = Some r \<longrightarrow> length (snd r) < length s)"


section \<open>The file catalog\<close>

text \<open>
  The interface \<^verbatim>\<open>FileInfo\<close>. The field \<^verbatim>\<open>size\<close> is \<open>fsize\<close> and the field \<^verbatim>\<open>imports\<close> is
  \<open>fimports\<close> here; the set of imports is kept in insertion order.
\<close>

record FileInfo =
  path :: jsstring
  fsize :: nat
  extension :: jsstring
  fimports :: "jsstring list"
  relevanceScore :: rat
  content :: jsstring

text \<open>
  The field \<^verbatim>\<open>files: Map<string, FileInfo>\<close> in insertion order. A \<^verbatim>\<open>Map\<close> holds a key
  once: \<open>distinct (map fst files)\<close> is the invariant of a catalog, and the theorems that
  need it assume it. \<^verbatim>\<open>Map.prototype.get\<close> is \<open>map_of\<close>, \<^verbatim>\<open>Map.prototype.set\<close> is
  \<open>AList.update\<close> (a present key keeps its place, a new key goes to the end).
\<close>

type_synonym catalog = "(jsstring \<times> FileInfo) list"

text \<open>The interface \<^verbatim>\<open>ContextConfig\<close>; \<open>None\<close> is a property that is not given.\<close>

record ContextConfig =
  maxTokens :: "rat option"
  minFiles :: "rat option"
  maxFileSize :: "rat option"
  contextFiles :: "jsstring list option"


section \<open>The relevance scorer\<close>

text \<open>
  \<^verbatim>\<open>queryLower.match(/\w+/g) || []\<close>: the maximal runs of word characters, from left to
  right (\<open>cur\<close> is the run being read).
\<close>

fun word_runs :: "jsstring \<Rightarrow> jsstring \<Rightarrow> jsstring list" where
  "word_runs cur [] = (if cur = [] then [] else [cur])"
| "word_runs cur (c # s) =
     (if is_word c then word_runs (cur @ [c]) s
      else if cur = [] then word_runs [] s
      else cur # word_runs [] s)"

text \<open>\<^verbatim>\<open>new Set(queryLower.match(/\w+/g) || [])\<close> for \<^verbatim>\<open>queryLower = query.toLowerCase()\<close>.\<close>

definition queryWords_of :: "jsstring \<Rightarrow> jsstring list" where
  "queryWords_of query = fold set_add (word_runs [] (toLowerCase query)) []"

text \<open>
  The test of one context file in the loop over \<^verbatim>\<open>contextFiles\<close>: the file is in the
  catalog and one of its imports occurs in the relative path.
\<close>

definition reaches :: "catalog \<Rightarrow> jsstring \<Rightarrow> jsstring \<Rightarrow> bool" where
  "reaches files relativePath ctxFile =
     (case map_of files ctxFile of
        None \<Rightarrow> False
      | Some ctxFileInfo \<Rightarrow> list_ex (\<lambda>imp. str_includes relativePath imp) (fimports ctxFileInfo))"

fun seed_loop :: "catalog \<Rightarrow> jsstring \<Rightarrow> jsstring list \<Rightarrow> rat \<Rightarrow> rat" where
  "seed_loop files relativePath [] score = score"
| "seed_loop files relativePath (ctxFile # rest) score =
     seed_loop files relativePath rest
       (if reaches files relativePath ctxFile then fadd score 8 else score)"

text \<open>The score before the decay: lines 270 to 306 of \<^verbatim>\<open>src/index.ts\<close>.\<close>

definition additive_score ::
  "catalog \<Rightarrow> jsstring list \<Rightarrow> jsstring list option \<Rightarrow> jsstring \<Rightarrow> FileInfo \<Rightarrow> rat" where
  "additive_score files queryWords ctx relativePath fileInfo =
     (let score0 = 0;
          filename = toLowerCase (basename relativePath);
          score1 = (if list_ex (\<lambda>word. str_includes filename word) queryWords
                    then fadd score0 10 else score0);
          pathLower = toLowerCase relativePath;
          pathMatches = length (filter (\<lambda>word. str_includes pathLower word) queryWords);
          score2 = fadd score1 (fmul (of_nat pathMatches) 5);
          contentLower = toLowerCase (content fileInfo);
          contentMatches = length (filter (\<lambda>word. str_includes contentLower word) queryWords);
          score3 = fadd score2 (fmul (of_nat contentMatches) 2);
          score4 = (if (case ctx of None \<Rightarrow> False | Some cf \<Rightarrow> relativePath \<in> set cf)
                    then fadd score3 15 else score3)
      in (case ctx of None \<Rightarrow> score4 | Some cf \<Rightarrow> seed_loop files relativePath cf score4))"

text \<open>The category decay: lines 308 to 317.\<close>

definition apply_decay :: "jsstring \<Rightarrow> jsstring \<Rightarrow> rat \<Rightarrow> rat" where
  "apply_decay ext pathLower score =
     (if ext \<in> set [(js ''.md''), (js ''.txt'')] then fmul score lit_0_5
      else if str_includes pathLower (js ''test'') \<or> str_includes pathLower (js ''spec'')
        then fmul score lit_0_7
      else if str_includes pathLower (js ''config'')
              \<or> ext \<in> set [(js ''.json''), (js ''.yaml''), (js ''.yml''), (js ''.toml'')]
        then fmul score lit_0_8
      else score)"

text \<open>The entry-point boost: lines 319 to 325.\<close>

definition entry_boost :: "jsstring \<Rightarrow> rat \<Rightarrow> rat" where
  "entry_boost filename score =
     (if filename = (js ''package.json'') \<or> filename = (js ''main.py'') \<or> filename = (js ''index.ts'')
      then fadd score 5 else score)"

text \<open>The body of the loop over the catalog: the score of one file.\<close>

definition file_score ::
  "catalog \<Rightarrow> jsstring list \<Rightarrow> jsstring list option \<Rightarrow> jsstring \<Rightarrow> FileInfo \<Rightarrow> rat" where
  "file_score files queryWords ctx relativePath fileInfo =
     entry_boost (toLowerCase (basename relativePath))
       (apply_decay (extension fileInfo) (toLowerCase relativePath)
          (additive_score files queryWords ctx relativePath fileInfo))"

text \<open>
  The loop \<^verbatim>\<open>for (const [relativePath, fileInfo] of this.files)\<close>. It writes each score into
  the record of the catalog while it runs: \<open>seen\<close> holds the entries already scored,
  with their new scores, and the catalog that the body reads is \<open>seen\<close> followed by the
  entries still to come.
\<close>

fun relevance_loop ::
  "catalog \<Rightarrow> catalog \<Rightarrow> jsstring list \<Rightarrow> jsstring list option \<Rightarrow> (jsstring \<times> rat) list
     \<Rightarrow> (jsstring \<times> rat) list \<times> catalog" where
  "relevance_loop seen [] queryWords ctx scores = (scores, seen)"
| "relevance_loop seen (entry # todo) queryWords ctx scores =
     (let relativePath = fst entry; fileInfo = snd entry;
          score = file_score (seen @ entry # todo) queryWords ctx relativePath fileInfo
      in relevance_loop (seen @ [(relativePath, fileInfo\<lparr>relevanceScore := score\<rparr>)]) todo
           queryWords ctx (AList.update relativePath score scores))"

text \<open>
  \<^verbatim>\<open>calculateRelevance\<close>: the returned map of scores, and the catalog with the scores
  written into its records.
\<close>

definition calculateRelevance ::
  "catalog \<Rightarrow> jsstring \<Rightarrow> jsstring list option \<Rightarrow> (jsstring \<times> rat) list \<times> catalog" where
  "calculateRelevance files query ctx = relevance_loop [] files (queryWords_of query) ctx []"


section \<open>The context selector\<close>

text \<open>\<^verbatim>\<open>Math.ceil(fileInfo.content.length / 4)\<close>.\<close>

definition file_tokens :: "FileInfo \<Rightarrow> nat" where
  "file_tokens fileInfo = nat \<lceil>(of_nat (length (content fileInfo)) :: rat) / 4\<rceil>"

text \<open>
  The walk over \<^verbatim>\<open>sortedFiles\<close>, lines 349 to 363, as a function of the state of the loop:
  the list \<^verbatim>\<open>selected\<close> and the counter \<^verbatim>\<open>totalTokens\<close>. It returns the state in which the
  loop ends, at the \<^verbatim>\<open>break\<close> or after the last file. The token counts are whole numbers
  far below \<open>2 ^ 53\<close>, where the additions of the source are exact: they are naturals.
\<close>

fun select_loop ::
  "rat \<Rightarrow> rat \<Rightarrow> FileInfo list \<Rightarrow> FileInfo list \<Rightarrow> nat \<Rightarrow> FileInfo list \<times> nat" where
  "select_loop maxT minF [] selected totalTokens = (selected, totalTokens)"
| "select_loop maxT minF (fileInfo # rest) selected totalTokens =
     (if relevanceScore fileInfo = 0 \<and> minF \<le> of_nat (length selected)
        then (selected, totalTokens)
      else if of_nat (totalTokens + file_tokens fileInfo) \<le> maxT
        then select_loop maxT minF rest (selected @ [fileInfo]) (totalTokens + file_tokens fileInfo)
      else if of_nat (length selected) < minF
        then select_loop maxT minF rest (selected @ [fileInfo]) (totalTokens + file_tokens fileInfo)
      else select_loop maxT minF rest selected totalTokens)"

text \<open>
  \<^verbatim>\<open>Array.prototype.sort\<close> with the comparator \<^verbatim>\<open>b.relevanceScore - a.relevanceScore\<close>: the
  sort is stable (ECMAScript 2019), and the difference of two finite numbers has the sign
  of their exact difference, so the result is the stable sort by falling score.
\<close>

definition sort_by_score :: "FileInfo list \<Rightarrow> FileInfo list" where
  "sort_by_score fs = sort_key (\<lambda>f. - relevanceScore f) fs"

text \<open>
  The destructuring \<^verbatim>\<open>const { maxTokens = 100000, minFiles = 3, contextFiles = [] } = config\<close>.
\<close>

definition cfg_maxTokens :: "ContextConfig \<Rightarrow> rat" where
  "cfg_maxTokens config = (case maxTokens config of None \<Rightarrow> 100000 | Some m \<Rightarrow> m)"

definition cfg_minFiles :: "ContextConfig \<Rightarrow> rat" where
  "cfg_minFiles config = (case minFiles config of None \<Rightarrow> 3 | Some m \<Rightarrow> m)"

definition cfg_contextFiles :: "ContextConfig \<Rightarrow> jsstring list" where
  "cfg_contextFiles config = (case contextFiles config of None \<Rightarrow> [] | Some c \<Rightarrow> c)"

text \<open>
  \<^verbatim>\<open>getOptimalContext\<close>: the selected files, and the catalog as the scoring left it.
\<close>

definition getOptimalContext ::
  "catalog \<Rightarrow> jsstring \<Rightarrow> ContextConfig \<Rightarrow> FileInfo list \<times> catalog" where
  "getOptimalContext files query config =
     (let files' = snd (calculateRelevance files query (Some (cfg_contextFiles config)));
          sortedFiles = sort_by_score (map snd files')
      in (fst (select_loop (cfg_maxTokens config) (cfg_minFiles config) sortedFiles [] 0), files'))"


section \<open>Notions used in the proofs\<close>

text \<open>What the scorer reads of the catalog besides the file it scores: keys and imports.\<close>

definition imports_view :: "catalog \<Rightarrow> (jsstring \<times> jsstring list) list" where
  "imports_view files = map (\<lambda>e. (fst e, fimports (snd e))) files"

text \<open>An entry of the catalog with its score written, and the entry of the score map.\<close>

definition scored_entry ::
  "catalog \<Rightarrow> jsstring list \<Rightarrow> jsstring list option \<Rightarrow> jsstring \<times> FileInfo \<Rightarrow> jsstring \<times> FileInfo" where
  "scored_entry files queryWords ctx e =
     (fst e, (snd e)\<lparr>relevanceScore := file_score files queryWords ctx (fst e) (snd e)\<rparr>)"

definition score_entry ::
  "catalog \<Rightarrow> jsstring list \<Rightarrow> jsstring list option \<Rightarrow> jsstring \<times> FileInfo \<Rightarrow> jsstring \<times> rat" where
  "score_entry files queryWords ctx e = (fst e, file_score files queryWords ctx (fst e) (snd e))"

text \<open>The catalog with every score reset: what a scoring pass depends on.\<close>

definition erase_entry :: "jsstring \<times> FileInfo \<Rightarrow> jsstring \<times> FileInfo" where
  "erase_entry e = (fst e, (snd e)\<lparr>relevanceScore := 0\<rparr>)"

definition erase_scores :: "catalog \<Rightarrow> catalog" where
  "erase_scores files = map (\<lambda>e. (fst e, (snd e)\<lparr>relevanceScore := 0\<rparr>)) files"

text \<open>The list is in the order of falling scores.\<close>

definition falling :: "FileInfo list \<Rightarrow> bool" where
  "falling fs = sorted_wrt (\<lambda>a b. relevanceScore b \<le> relevanceScore a) fs"

text \<open>The list \<^verbatim>\<open>sortedFiles\<close> that \<^verbatim>\<open>getOptimalContext\<close> walks over.\<close>

definition sorted_files :: "catalog \<Rightarrow> jsstring \<Rightarrow> ContextConfig \<Rightarrow> FileInfo list" where
  "sorted_files files query config =
     sort_by_score (map snd (snd (calculateRelevance files query (Some (cfg_contextFiles config)))))"

text \<open>
  The three terms of the score that come from the query words, as a natural number:
  10 for a word in the file name, 5 for each word in the path, 2 for each word in the
  content.
\<close>

definition token_score :: "jsstring list \<Rightarrow> jsstring \<Rightarrow> FileInfo \<Rightarrow> nat" where
  "token_score queryWords relativePath fileInfo =
     (if list_ex (\<lambda>word. str_includes (toLowerCase (basename relativePath)) word) queryWords
      then 10 else 0)
     + 5 * length (filter (\<lambda>word. str_includes (toLowerCase relativePath) word) queryWords)
     + 2 * length (filter (\<lambda>word. str_includes (toLowerCase (content fileInfo)) word) queryWords)"

text \<open>
  The record that \<^verbatim>\<open>processFile\<close> stores for a file (lines 186 to 197): \<open>bytes\<close> is
  \<^verbatim>\<open>stats.size\<close>, the size in bytes that the file system gives. The extractor always
  returns (lemma \<open>extractImports_returns\<close>), so the first branch of the \<open>case\<close> is never
  taken.
\<close>

definition scanned_entry :: "jsstring \<Rightarrow> nat \<Rightarrow> jsstring \<Rightarrow> jsstring \<Rightarrow> jsstring \<times> FileInfo" where
  "scanned_entry relativePath bytes ext txt =
     (relativePath,
      \<lparr>path = relativePath, fsize = bytes, extension = ext,
       fimports = (case extractImports txt ext of None \<Rightarrow> [] | Some is \<Rightarrow> is),
       relevanceScore = 0, content = txt\<rparr>)"


section \<open>Properties of the import extractor\<close>

lemma js_Nil: "js [] = []"
  by (simp add: js_def)

lemma js_Cons: "js (c # s) = of_char c # js s"
  by (simp add: js_def)

lemma js_eq_iff [simp]: "js a = js b \<longleftrightarrow> a = b"
proof -
  have "inj (of_char :: char \<Rightarrow> int)"
    by (rule injI) simp
  then show ?thesis
    by (simp add: js_def inj_map_eq_map)
qed

lemma js_Nil_iff [simp]: "js s = [] \<longleftrightarrow> s = []"
  by (simp add: js_def)

lemma try_down_Some:
  "try_down f lo k = Some r \<Longrightarrow> \<exists>j. lo \<le> j \<and> j \<le> k \<and> f j = Some r"
proof (induction k)
  case 0
  then show ?case by (auto split: if_splits)
next
  case (Suc k)
  show ?case
  proof (cases "f (Suc k)")
    case None
    with Suc.prems have "try_down f lo k = Some r"
      by (simp split: if_splits)
    from Suc.IH [OF this] show ?thesis
      using le_Suc_eq by blast
  next
    case (Some a)
    with Suc.prems have "lo \<le> Suc k \<and> Suc k \<le> Suc k \<and> f (Suc k) = Some r"
      by (simp split: if_splits)
    then show ?thesis by blast
  qed
qed

lemma match_at_shorter:
  "match_at p s cap = Some r \<Longrightarrow> length (snd r) \<le> length s"
proof (induction p arbitrary: s cap r)
  case Nil
  then show ?case by auto
next
  case (Cons a p)
  show ?case
  proof (cases a)
    case (Lit l)
    with Cons.prems have "match_at p (drop (length l) s) cap = Some r"
      by (simp split: if_splits)
    from Cons.IH [OF this] show ?thesis by simp
  next
    case (One c)
    with Cons.prems obtain x xs where "s = x # xs" "match_at p xs cap = Some r"
      by (auto split: list.splits if_splits)
    with Cons.IH [of xs cap r] show ?thesis by simp
  next
    case (Plus c)
    with Cons.prems obtain j where "match_at p (drop j s) cap = Some r"
      by (auto dest: try_down_Some)
    from Cons.IH [OF this] show ?thesis by simp
  next
    case (Star c)
    with Cons.prems obtain j where "match_at p (drop j s) cap = Some r"
      by (auto dest: try_down_Some)
    from Cons.IH [OF this] show ?thesis by simp
  next
    case (CapPlus c)
    with Cons.prems obtain j where "match_at p (drop j s) (Some (take j s)) = Some r"
      by (auto dest: try_down_Some)
    from Cons.IH [OF this] show ?thesis by simp
  qed
qed

lemma consuming_Lit: "l \<noteq> [] \<Longrightarrow> consuming (Lit l # p)"
proof (unfold consuming_def, intro allI impI)
  fix s cap r
  assume l: "l \<noteq> []" and m: "match_at (Lit l # p) s cap = Some r"
  from m have t: "take (length l) s = l" and m': "match_at p (drop (length l) s) cap = Some r"
    by (simp_all split: if_splits)
  from t l have "0 < length s" by auto
  moreover from match_at_shorter [OF m'] have "length (snd r) \<le> length s - length l" by simp
  moreover from l have "0 < length l" by simp
  ultimately show "length (snd r) < length s"
    by arith
qed

lemma exec_consuming:
  "consuming p \<Longrightarrow> exec p s = Some r \<Longrightarrow> length (snd r) < length s"
proof (induction s)
  case Nil
  then have "match_at p [] None = Some r" by simp
  with Nil.prems(1) have "length (snd r) < length ([] :: jsstring)"
    unfolding consuming_def by blast
  then show ?case by simp
next
  case (Cons x xs)
  show ?case
  proof (cases "match_at p (x # xs) None")
    case None
    with Cons.prems have "exec p xs = Some r" by simp
    from Cons.IH [OF Cons.prems(1) this] show ?thesis by simp
  next
    case (Some a)
    with Cons.prems have "match_at p (x # xs) None = Some r" by simp
    with Cons.prems(1) show ?thesis unfolding consuming_def by blast
  qed
qed

lemma exec_loop_returns:
  assumes "consuming p"
  shows "\<exists>y. exec_loop p s acc = Some y"
proof (induction s arbitrary: acc rule: length_induct)
  case (1 s)
  show ?case
  proof (cases "exec p s")
    case None
    then show ?thesis by (subst exec_loop.simps) simp
  next
    case (Some r)
    from exec_consuming [OF assms Some] have "length (snd r) < length s" .
    with 1 have "\<exists>y. exec_loop p (snd r)
        (case fst r of None \<Rightarrow> acc | Some g \<Rightarrow> if g = [] then acc else set_add g acc) = Some y"
      by blast
    with Some show ?thesis by (subst exec_loop.simps) simp
  qed
qed

lemma run_patterns_returns:
  "\<forall>p \<in> set ps. consuming p \<Longrightarrow> \<exists>y. run_patterns ps s acc = Some y"
proof (induction ps arbitrary: acc)
  case Nil
  then show ?case by simp
next
  case (Cons p ps)
  from Cons.prems have "consuming p" by simp
  from exec_loop_returns [OF this] obtain a where "exec_loop p s acc = Some a" by blast
  moreover from Cons have "\<exists>y. run_patterns ps s a = Some y" by simp
  ultimately show ?case by simp
qed


lemma py_consuming: "\<forall>p \<in> set py_patterns. consuming p"
  by (simp add: py_patterns_def consuming_Lit)

lemma js_consuming: "\<forall>p \<in> set js_patterns. consuming p"
  by (simp add: js_patterns_def consuming_Lit)

lemma other_consuming:
  "\<forall>p \<in> set java_patterns. consuming p" "\<forall>p \<in> set go_patterns. consuming p"
  "\<forall>p \<in> set rs_patterns. consuming p" "\<forall>p \<in> set c_patterns. consuming p"
  by (simp_all add: java_patterns_def go_patterns_def rs_patterns_def c_patterns_def consuming_Lit)

lemma table_consuming:
  assumes "patterns_for e = Some ps"
  shows "\<forall>p \<in> set ps. consuming p"
proof -
  from assms have "ps \<in> {py_patterns, js_patterns, java_patterns, go_patterns, rs_patterns, c_patterns}"
    unfolding patterns_for_def by (simp split: if_splits)
  then show ?thesis
    using py_consuming js_consuming other_consuming by blast
qed

lemma extractImports_returns: "\<exists>y. extractImports src ext = Some y"
proof (cases "patterns_for ext")
  case None
  then show ?thesis by (simp add: extractImports_def)
next
  case (Some ps)
  from run_patterns_returns [OF table_consuming [OF Some]] Some show ?thesis
    by (simp add: extractImports_def)
qed

text \<open>
  Every pattern of the table starts with a non-empty literal, so the extraction loop ends on
  every content and every extension.
\<close>

text \<open>
  Claim C9. For every content and every extension outside the fourteen extensions of the
  \<^verbatim>\<open>switch\<close>, \<^verbatim>\<open>extractImports\<close> returns the empty set; it returns, and raises nothing.
\<close>

theorem extractImports_unsupported_empty:
  "ext \<notin> set [(js ''.py''), (js ''.js''), (js ''.ts''), (js ''.jsx''), (js ''.tsx''), (js ''.vue''), (js ''.svelte''),
      (js ''.java''), (js ''.go''), (js ''.rs''), (js ''.cpp''), (js ''.c''), (js ''.h''), (js ''.hpp'')]
   \<Longrightarrow> extractImports src ext = Some []"
  by (simp add: extractImports_def patterns_for_def)

theorem extractImports_unsupported_empty_witness:
  "(js ''.md'') \<notin> set [(js ''.py''), (js ''.js''), (js ''.ts''), (js ''.jsx''), (js ''.tsx''), (js ''.vue''), (js ''.svelte''),
      (js ''.java''), (js ''.go''), (js ''.rs''), (js ''.cpp''), (js ''.c''), (js ''.h''), (js ''.hpp'')]
   \<and> extractImports (js ''# import os'') (js ''.md'') = Some []"
  using extractImports_unsupported_empty [of "(js ''.md'')" "(js ''# import os'')"] by simp

text \<open>
  Claim C2, as amended. On the content \<^verbatim>\<open>import os\<close>, newline,
  \<^verbatim>\<open>from collections import OrderedDict\<close> with extension \<^verbatim>\<open>.py\<close>, the extractor returns the
  three targets \<^verbatim>\<open>collections\<close>, \<^verbatim>\<open>os\<close> and \<^verbatim>\<open>OrderedDict\<close>: the second pattern
  \<^verbatim>\<open>import\s+([.\w]+)\<close> also matches inside the \<^verbatim>\<open>from ... import ...\<close> line.
\<close>

theorem extractImports_py_example:
  "extractImports (js ''import os'' @ [10] @ (js ''from collections import OrderedDict'')) (js ''.py'')
     = Some [(js ''collections''), (js ''os''), (js ''OrderedDict'')]"
  by code_simp

text \<open>The set \<^verbatim>\<open>{os, collections}\<close> of the claim as stated is not the result.\<close>

theorem extractImports_py_two_targets_counterexample:
  "map_option set
     (extractImports (js ''import os'' @ [10] @ (js ''from collections import OrderedDict'')) (js ''.py''))
     \<noteq> Some {(js ''os''), (js ''collections'')}"
proof
  assume a: "map_option set
     (extractImports (js ''import os'' @ [10] @ (js ''from collections import OrderedDict'')) (js ''.py''))
     = Some {(js ''os''), (js ''collections'')}"
  have e: "extractImports (js ''import os'' @ [10] @ (js ''from collections import OrderedDict'')) (js ''.py'')
     = Some [(js ''collections''), (js ''os''), (js ''OrderedDict'')]"
    by code_simp
  have "(js ''OrderedDict'') \<in> set [(js ''collections''), (js ''os''), (js ''OrderedDict'')]"
    by simp
  also from a have "set [(js ''collections''), (js ''os''), (js ''OrderedDict'')] = {(js ''os''), (js ''collections'')}"
    unfolding e by (simp only: option.map option.inject)
  finally show False by simp
qed


section \<open>Floating-point arithmetic: properties\<close>

lemma pow2_pos: "0 < pow2 e"
  by (simp add: pow2_def)

lemma pow2_nonpos: "e \<le> 0 \<Longrightarrow> pow2 e = 1 / 2 ^ nat (- e)"
  by (cases "e = 0") (simp_all add: pow2_def)

lemma round_double_zero: "round_double 0 = 0"
  by (simp add: round_double_def)

lemma round_half_even_of_int: "round_half_even (of_int m) = m"
  by (simp add: round_half_even_def)

lemma round_half_even_nonneg: "0 \<le> x \<Longrightarrow> 0 \<le> round_half_even x"
proof -
  assume "0 \<le> x"
  then have "0 \<le> \<lfloor>x\<rfloor>" by simp
  then show ?thesis
    by (simp add: round_half_even_def Let_def)
qed

lemma round_double_nonneg: "0 \<le> x \<Longrightarrow> 0 \<le> round_double x"
proof (cases "x = 0")
  case True
  then show ?thesis by (simp add: round_double_zero)
next
  case False
  assume "0 \<le> x"
  with False have pos: "0 < x" by simp
  define q where "q = pow2 (max (ilog2 \<bar>x\<bar>) (- 1022) - 52)"
  have q: "0 < q" unfolding q_def by (rule pow2_pos)
  with pos have "0 \<le> \<bar>x\<bar> / q" by simp
  then have "0 \<le> round_half_even (\<bar>x\<bar> / q)" by (rule round_half_even_nonneg)
  then have "0 \<le> (of_int (round_half_even (\<bar>x\<bar> / q)) :: rat) * q"
    using q by simp
  with pos False show ?thesis
    by (simp add: round_double_def Let_def q_def)
qed

lemma bitlen_le_53:
  assumes "0 < n" "n < 2 ^ 53"
  shows "bitlen (int n) \<le> 53"
proof -
  from assms have "0 < int n" by simp
  from bitlen_bounds [OF this] have "(2::int) ^ nat (bitlen (int n) - 1) \<le> int n" by simp
  also from assms have "int n < 2 ^ 53"
    by (metis of_nat_less_iff of_nat_numeral of_nat_power)
  finally have "(2::int) ^ nat (bitlen (int n) - 1) < 2 ^ 53" .
  then have "nat (bitlen (int n) - 1) < 53"
    by (rule power_less_imp_less_exp [rotated]) simp
  then show ?thesis by simp
qed

lemma ilog2_of_nat_le:
  assumes "0 < n" "n < 2 ^ 53"
  shows "ilog2 (of_nat n) \<le> 52"
proof -
  have "quotient_of (of_nat n) = (int n, 1)"
    using quotient_of_int [of "int n"] by simp
  moreover have "bitlen 1 = 1"
    by (simp add: bitlen_alt_def)
  ultimately have "ilog2 (of_nat n) \<le> bitlen (int n) - 1"
    by (simp add: ilog2_def Let_def)
  with bitlen_le_53 [OF assms] show ?thesis by simp
qed

lemma round_double_of_nat:
  assumes "n < 2 ^ 53"
  shows "round_double (of_nat n) = of_nat n"
proof (cases "n = 0")
  case True
  then show ?thesis by (simp add: round_double_zero)
next
  case False
  then have pos: "0 < n" by simp
  define k where "k = max (ilog2 (of_nat n)) (- 1022) - 52"
  define j where "j = nat (- k)"
  from ilog2_of_nat_le [OF pos assms] have "k \<le> 0" by (simp add: k_def)
  then have q: "pow2 k = 1 / 2 ^ j" unfolding j_def by (rule pow2_nonpos)
  have "(of_nat n :: rat) / pow2 k = of_int (int n * 2 ^ j)"
    by (simp add: q)
  then have "round_half_even (of_nat n / pow2 k) = int n * 2 ^ j"
    by (simp only: round_half_even_of_int)
  then have "(of_int (round_half_even (of_nat n / pow2 k)) :: rat) * pow2 k = of_nat n"
    by (simp add: q)
  with pos show ?thesis
    by (simp add: round_double_def Let_def k_def)
qed

lemma pow2_diff_nat: "pow2 (int m - int n) = 2 ^ m / 2 ^ n"
proof (cases "n \<le> m")
  case True
  then have "pow2 (int m - int n) = 2 ^ (m - n)"
    by (simp add: pow2_def nat_diff_distrib')
  also from True have "\<dots> = (2::rat) ^ m / 2 ^ n"
    by (simp add: power_diff)
  finally show ?thesis .
next
  case False
  then have lt: "m < n" by simp
  then have "nat (int n - int m) = n - m" by simp
  with lt have "pow2 (int m - int n) = 1 / 2 ^ (n - m)"
    by (simp add: pow2_def)
  also from lt have "(2::rat) ^ (n - m) = 2 ^ n / 2 ^ m"
    by (simp add: power_diff)
  finally show ?thesis by simp
qed

lemma ilog2_lower:
  assumes "0 < a"
  shows "pow2 (ilog2 a) \<le> a"
proof -
  obtain p q where pq: "quotient_of a = (p, q)" by (cases "quotient_of a")
  then have q: "0 < q" by (rule quotient_of_denom_pos)
  from pq have a: "a = of_int p / of_int q" by (rule quotient_of_div)
  with assms q have p: "0 < p"
    by (simp add: zero_less_divide_iff)
  define d where "d = bitlen p - bitlen q"
  show ?thesis
  proof (cases "pow2 d \<le> a")
    case True
    with pq show ?thesis by (simp add: ilog2_def d_def Let_def)
  next
    case False
    with pq have i: "ilog2 a = d - 1" by (simp add: ilog2_def d_def Let_def)
    from bitlen_bounds [OF p] have lp: "(2::int) ^ nat (bitlen p - 1) \<le> p" by simp
    from bitlen_bounds [OF q] have uq: "q < 2 ^ nat (bitlen q)" by simp
    have bp: "1 \<le> bitlen p" using p by (simp add: bitlen_alt_def)
    have bq: "1 \<le> bitlen q" using q by (simp add: bitlen_alt_def)
    define m where "m = nat (bitlen p - 1)"
    define n where "n = nat (bitlen q)"
    from bp bq have "d - 1 = int m - int n" by (simp add: d_def m_def n_def)
    then have "pow2 (d - 1) = 2 ^ m / 2 ^ n" by (simp only: pow2_diff_nat)
    also have "\<dots> \<le> of_int p / 2 ^ n"
    proof -
      from lp have "(of_int ((2::int) ^ m) :: rat) \<le> of_int p"
        unfolding m_def by (simp only: of_int_le_iff)
      then have "(2::rat) ^ m \<le> of_int p" by simp
      then show ?thesis by (simp add: divide_right_mono)
    qed
    also have "\<dots> \<le> of_int p / of_int q"
    proof -
      from uq have "(of_int q :: rat) < of_int ((2::int) ^ n)"
        unfolding n_def by (simp only: of_int_less_iff)
      then have "(of_int q :: rat) \<le> 2 ^ n" by simp
      moreover from q have "(0::rat) < of_int q" by simp
      moreover from p have "(0::rat) \<le> of_int p" by simp
      ultimately show ?thesis by (intro frac_le) simp_all
    qed
    finally have f: "pow2 (d - 1) \<le> a" unfolding a .
    show ?thesis by (simp only: i f)
  qed
qed

lemma round_half_even_ge_floor: "\<lfloor>x\<rfloor> \<le> round_half_even x"
  by (simp add: round_half_even_def Let_def)

lemma round_double_ge_of_nat:
  assumes "n < 2 ^ 53" "of_nat n \<le> x"
  shows "of_nat n \<le> round_double x"
proof (cases "n = 0")
  case True
  with assms(2) show ?thesis by (simp add: round_double_nonneg)
next
  case False
  with assms(2) have pos: "0 < x"
    by (metis of_nat_0_less_iff gr0I less_le_trans)
  define e where "e = max (ilog2 x) (- 1022)"
  define k where "k = e - 52"
  define q where "q = pow2 k"
  have qpos: "0 < q" unfolding q_def by (rule pow2_pos)
  from pos have r: "round_double x = of_int (round_half_even (x / q)) * q"
    by (simp add: round_double_def Let_def q_def k_def e_def)
  show ?thesis
  proof (cases "k \<le> 0")
    case True
    define j where "j = nat (- k)"
    from True have qv: "q = 1 / 2 ^ j" unfolding q_def j_def by (rule pow2_nonpos)
    from assms(2) qpos have "of_nat n / q \<le> x / q" by (simp add: divide_right_mono)
    moreover have "of_nat n / q = of_int (int n * 2 ^ j)" by (simp add: qv)
    ultimately have "of_int (int n * 2 ^ j) \<le> x / q" by simp
    then have "int n * 2 ^ j \<le> \<lfloor>x / q\<rfloor>" by (simp only: le_floor_iff)
    also have "\<dots> \<le> round_half_even (x / q)" by (rule round_half_even_ge_floor)
    finally have "(of_int (int n * 2 ^ j) :: rat) \<le> of_int (round_half_even (x / q))"
      by (simp only: of_int_le_iff)
    with qpos have "(of_int (int n * 2 ^ j) :: rat) * q \<le> of_int (round_half_even (x / q)) * q"
      by (simp only: mult_le_cancel_right_pos)
    moreover have "(of_int (int n * 2 ^ j) :: rat) * q = of_nat n" by (simp add: qv)
    ultimately show ?thesis by (simp only: r)
  next
    case False
    then have kpos: "0 < k" by simp
    then have ee: "e = ilog2 x" unfolding k_def e_def by simp
    from ilog2_lower [OF pos] have "pow2 e \<le> x" by (simp only: ee)
    with qpos have "pow2 e / q \<le> x / q" by (simp add: divide_right_mono)
    moreover have "pow2 e / q = 2 ^ 52"
    proof -
      from kpos have "pow2 e = 2 ^ nat e" "q = 2 ^ nat k" "nat e = nat k + 52"
        unfolding q_def k_def by (simp_all add: pow2_def)
      then show ?thesis by (simp add: power_add)
    qed
    ultimately have "(of_int (2 ^ 52) :: rat) \<le> x / q" by simp
    then have "(2::int) ^ 52 \<le> \<lfloor>x / q\<rfloor>" by (simp only: le_floor_iff)
    also have "\<dots> \<le> round_half_even (x / q)" by (rule round_half_even_ge_floor)
    finally have "(of_int (2 ^ 52) :: rat) \<le> of_int (round_half_even (x / q))"
      by (simp only: of_int_le_iff)
    moreover have "2 \<le> q"
    proof -
      from kpos obtain i where "nat k = Suc i" by (cases "nat k") simp_all
      with kpos have "q = 2 * 2 ^ i" unfolding q_def by (simp add: pow2_def)
      moreover have "(1::rat) \<le> 2 ^ i" by simp
      ultimately show ?thesis by simp
    qed
    ultimately have "(of_int (2 ^ 52) :: rat) * 2 \<le> of_int (round_half_even (x / q)) * q"
      by (intro mult_mono) simp_all
    moreover have "(of_nat n :: rat) \<le> of_int (2 ^ 52) * 2"
    proof -
      from assms(1) have "(of_nat n :: rat) < of_nat (2 ^ 53)" by (simp only: of_nat_less_iff)
      then show ?thesis by simp
    qed
    ultimately show ?thesis by (simp only: r)
  qed
qed

lemma fadd_of_nat: "a + b < 2 ^ 53 \<Longrightarrow> fadd (of_nat a) (of_nat b) = of_nat (a + b)"
  using round_double_of_nat [of "a + b"] by (simp add: fadd_def)

lemma fmul_of_nat: "a * b < 2 ^ 53 \<Longrightarrow> fmul (of_nat a) (of_nat b) = of_nat (a * b)"
  using round_double_of_nat [of "a * b"] by (simp add: fmul_def)

lemma fadd_nonneg: "0 \<le> a \<Longrightarrow> 0 \<le> b \<Longrightarrow> 0 \<le> fadd a b"
  by (simp add: fadd_def round_double_nonneg)

lemma fmul_nonneg: "0 \<le> a \<Longrightarrow> 0 \<le> b \<Longrightarrow> 0 \<le> fmul a b"
  by (simp add: fmul_def round_double_nonneg)

lemma fmul_zero_left: "fmul 0 b = 0"
  by (simp add: fmul_def round_double_zero)

lemma fadd_zero_zero: "fadd 0 0 = 0"
  by (simp add: fadd_def round_double_zero)

lemma lit_0_5_value: "lit_0_5 = 1 / 2"
  by code_simp

lemma lit_0_7_value: "lit_0_7 = 6305039478318694 / 2 ^ 53"
  by code_simp

lemma lit_0_8_value: "lit_0_8 = 7205759403792794 / 2 ^ 53"
  by code_simp

lemma lit_bounds:
  "0 < lit_0_5" "lit_0_5 \<le> 1" "0 < lit_0_7" "lit_0_7 \<le> 1" "0 < lit_0_8" "lit_0_8 \<le> 1"
  by (simp_all add: lit_0_5_value lit_0_7_value lit_0_8_value)


section \<open>Properties of the scorer\<close>

lemma str_includes_iff: "str_includes s w \<longleftrightarrow> (\<exists>ps ss. s = ps @ w @ ss)"
proof (induction s)
  case Nil
  then show ?case by auto
next
  case (Cons c s)
  show ?case
  proof
    assume "str_includes (c # s) w"
    then consider "take (length w) (c # s) = w" | "str_includes s w" by auto
    then show "\<exists>ps ss. c # s = ps @ w @ ss"
    proof cases
      case 1
      then have "c # s = [] @ w @ drop (length w) (c # s)"
        by (metis append_Nil append_take_drop_id)
      then show ?thesis by blast
    next
      case 2
      with Cons.IH obtain ps ss where "s = ps @ w @ ss" by blast
      then have "c # s = (c # ps) @ w @ ss" by simp
      then show ?thesis by blast
    qed
  next
    assume "\<exists>ps ss. c # s = ps @ w @ ss"
    then obtain ps ss where e: "c # s = ps @ w @ ss" by blast
    show "str_includes (c # s) w"
    proof (cases ps)
      case Nil
      with e have "take (length w) (c # s) = w" by simp
      then show ?thesis by simp
    next
      case (Cons p ps')
      with e have "s = ps' @ w @ ss" by simp
      with Cons.IH have "str_includes s w" by blast
      then show ?thesis by simp
    qed
  qed
qed

lemma map_of_imports_view:
  "map_of (imports_view files) c = map_option fimports (map_of files c)"
  by (induction files) (auto simp: imports_view_def)

lemma reaches_view:
  "reaches files rp c =
     (case map_of (imports_view files) c of None \<Rightarrow> False
      | Some is \<Rightarrow> list_ex (\<lambda>imp. str_includes rp imp) is)"
  by (simp add: reaches_def map_of_imports_view split: option.splits)

lemma reaches_cong_view:
  "imports_view F = imports_view G \<Longrightarrow> reaches F rp c = reaches G rp c"
  by (simp add: reaches_view)

lemma seed_loop_cong_view:
  assumes "imports_view F = imports_view G"
  shows "seed_loop F rp cf s = seed_loop G rp cf s"
proof (induction cf arbitrary: s)
  case Nil
  show ?case by simp
next
  case (Cons c cf)
  from assms have "reaches F rp c = reaches G rp c" by (rule reaches_cong_view)
  with Cons.IH show ?case by simp
qed

lemma seed_loop_of_nat:
  "k + 8 * length cf < 2 ^ 53 \<Longrightarrow>
   seed_loop files rp cf (of_nat k) = of_nat (k + 8 * length (filter (reaches files rp) cf))"
proof (induction cf arbitrary: k)
  case Nil
  then show ?case by simp
next
  case (Cons c cf)
  show ?case
  proof (cases "reaches files rp c")
    case True
    from Cons.prems have b: "k + 8 < 2 ^ 53" "(k + 8) + 8 * length cf < 2 ^ 53" by simp_all
    from fadd_of_nat [of k 8] b(1) have "fadd (of_nat k) 8 = of_nat (k + 8)" by simp
    with True Cons.IH [OF b(2)] show ?thesis by simp
  next
    case False
    from Cons.prems have "k + 8 * length cf < 2 ^ 53" by simp
    with False Cons.IH [of k] show ?thesis by simp
  qed
qed

lemma seed_loop_nonneg: "0 \<le> s \<Longrightarrow> 0 \<le> seed_loop files rp cf s"
  by (induction cf arbitrary: s) (simp_all add: fadd_nonneg)


lemma additive_score_cong_view:
  assumes "imports_view F = imports_view G" "content fi = content gi"
  shows "additive_score F qw ctx rp fi = additive_score G qw ctx rp gi"
proof -
  have "seed_loop F rp cf s = seed_loop G rp cf s" for cf s
    using assms(1) by (rule seed_loop_cong_view)
  with assms(2) show ?thesis
    by (simp add: additive_score_def Let_def split: option.splits)
qed

lemma file_score_cong_view:
  assumes "imports_view F = imports_view G" "content fi = content gi" "extension fi = extension gi"
  shows "file_score F qw ctx rp fi = file_score G qw ctx rp gi"
  using additive_score_cong_view [OF assms(1,2)] assms(3) by (simp add: file_score_def)

lemma additive_score_nonneg: "0 \<le> additive_score files qw ctx rp fi"
  by (simp add: additive_score_def Let_def seed_loop_nonneg fadd_nonneg fmul_nonneg
      split: option.splits)

lemma apply_decay_nonneg: "0 \<le> s \<Longrightarrow> 0 \<le> apply_decay ext pl s"
  using lit_bounds by (simp add: apply_decay_def fmul_nonneg less_imp_le)

lemma entry_boost_nonneg: "0 \<le> s \<Longrightarrow> 0 \<le> entry_boost fn s"
  by (simp add: entry_boost_def fadd_nonneg)

lemma file_score_nonneg: "0 \<le> file_score files qw ctx rp fi"
  by (simp add: file_score_def entry_boost_nonneg apply_decay_nonneg additive_score_nonneg)

lemma erase_scores_alt: "erase_scores F = map erase_entry F"
  by (simp add: erase_scores_def erase_entry_def)

lemma imports_view_append: "imports_view (A @ B) = imports_view A @ imports_view B"
  by (simp add: imports_view_def)

lemma imports_view_erase: "imports_view (erase_scores F) = imports_view F"
  by (simp add: imports_view_def erase_scores_def)

lemma relevance_loop_closed:
  assumes "imports_view (seen @ todo) = imports_view F"
  shows "relevance_loop seen todo qw ctx scores =
     (fold (\<lambda>e acc. AList.update (fst e) (file_score F qw ctx (fst e) (snd e)) acc) todo scores,
      seen @ map (scored_entry F qw ctx) todo)"
  using assms
proof (induction todo arbitrary: seen scores)
  case Nil
  show ?case by simp
next
  case (Cons e todo)
  let ?s = "file_score (seen @ e # todo) qw ctx (fst e) (snd e)"
  let ?seen = "seen @ [(fst e, (snd e)\<lparr>relevanceScore := ?s\<rparr>)]"
  have s: "?s = file_score F qw ctx (fst e) (snd e)"
    using Cons.prems by (rule file_score_cong_view) simp_all
  have "imports_view (?seen @ todo) = imports_view (seen @ e # todo)"
    by (simp add: imports_view_def)
  with Cons.prems have "imports_view (?seen @ todo) = imports_view F" by simp
  from Cons.IH [OF this]
  have "relevance_loop ?seen todo qw ctx (AList.update (fst e) ?s scores) =
     (fold (\<lambda>e acc. AList.update (fst e) (file_score F qw ctx (fst e) (snd e)) acc) todo
        (AList.update (fst e) ?s scores),
      ?seen @ map (scored_entry F qw ctx) todo)" .
  then show ?case
    by (simp add: Let_def s scored_entry_def)
qed

lemma calculateRelevance_closed:
  "calculateRelevance F query ctx =
     (fold (\<lambda>e acc. AList.update (fst e) (file_score F (queryWords_of query) ctx (fst e) (snd e)) acc)
        F [],
      map (scored_entry F (queryWords_of query) ctx) F)"
  using relevance_loop_closed [of "[]" F F "queryWords_of query" ctx "[]"]
  by (simp add: calculateRelevance_def)

lemma update_new_key: "k \<notin> fst ` set acc \<Longrightarrow> AList.update k v acc = acc @ [(k, v)]"
  by (induction acc) auto

lemma fold_update_distinct:
  "distinct (map fst xs) \<Longrightarrow> fst ` set xs \<inter> fst ` set acc = {} \<Longrightarrow>
   fold (\<lambda>e acc. AList.update (fst e) (g e) acc) xs acc = acc @ map (\<lambda>e. (fst e, g e)) xs"
proof (induction xs arbitrary: acc)
  case Nil
  show ?case by simp
next
  case (Cons x xs)
  from Cons.prems have new: "fst x \<notin> fst ` set acc" by auto
  then have u: "AList.update (fst x) (g x) acc = acc @ [(fst x, g x)]" by (rule update_new_key)
  from Cons.prems have d: "distinct (map fst xs)" by simp
  from Cons.prems have "fst ` set xs \<inter> fst ` set (acc @ [(fst x, g x)]) = {}"
    by (auto simp: image_iff)
  from Cons.IH [OF d this] u show ?case by simp
qed

lemma calculateRelevance_scores:
  assumes "distinct (map fst F)"
  shows "fst (calculateRelevance F query ctx) = map (score_entry F (queryWords_of query) ctx) F"
proof -
  have "fold (\<lambda>e acc. AList.update (fst e) (file_score F (queryWords_of query) ctx (fst e) (snd e)) acc)
        F [] = [] @ map (\<lambda>e. (fst e, file_score F (queryWords_of query) ctx (fst e) (snd e))) F"
    using assms by (intro fold_update_distinct) simp_all
  then show ?thesis
    by (simp add: calculateRelevance_closed score_entry_def)
qed

lemma calculateRelevance_files:
  "snd (calculateRelevance F query ctx) = map (scored_entry F (queryWords_of query) ctx) F"
  by (simp add: calculateRelevance_closed)

lemma file_score_erase:
  "file_score (erase_scores F) qw ctx rp (fi\<lparr>relevanceScore := 0\<rparr>) = file_score F qw ctx rp fi"
  by (rule file_score_cong_view) (simp_all add: imports_view_erase)

lemma scored_entry_erase:
  "scored_entry (erase_scores F) qw ctx (erase_entry e) = scored_entry F qw ctx e"
  by (simp add: scored_entry_def erase_entry_def file_score_erase)

lemma calculateRelevance_erase:
  "calculateRelevance (erase_scores F) query ctx = calculateRelevance F query ctx"
proof -
  let ?qw = "queryWords_of query"
  have a: "map (scored_entry (erase_scores F) ?qw ctx) (erase_scores F) = map (scored_entry F ?qw ctx) F"
    using scored_entry_erase [of F ?qw ctx] by (simp add: erase_scores_alt)
  have "fold (\<lambda>e acc. AList.update (fst e) (file_score (erase_scores F) ?qw ctx (fst e) (snd e)) acc)
          (map erase_entry F) acc
        = fold (\<lambda>e acc. AList.update (fst e) (file_score F ?qw ctx (fst e) (snd e)) acc) F acc" for acc
    by (simp add: fold_map comp_def erase_entry_def file_score_erase)
  then have b: "fold (\<lambda>e acc. AList.update (fst e) (file_score (erase_scores F) ?qw ctx (fst e) (snd e)) acc)
          (erase_scores F) []
        = fold (\<lambda>e acc. AList.update (fst e) (file_score F ?qw ctx (fst e) (snd e)) acc) F []"
    by (simp add: erase_scores_alt)
  show ?thesis
    by (simp only: calculateRelevance_closed a b)
qed

lemma calculateRelevance_cong_erase:
  "erase_scores F = erase_scores G \<Longrightarrow> calculateRelevance F query ctx = calculateRelevance G query ctx"
  by (metis calculateRelevance_erase)

lemma erase_scores_calculateRelevance:
  "erase_scores (snd (calculateRelevance F query ctx)) = erase_scores F"
  by (simp add: calculateRelevance_files erase_scores_def scored_entry_def)

lemma calculateRelevance_idem:
  "calculateRelevance (snd (calculateRelevance F query' ctx')) query ctx = calculateRelevance F query ctx"
  by (rule calculateRelevance_cong_erase) (rule erase_scores_calculateRelevance)

lemma getOptimalContext_after_scoring:
  "getOptimalContext (snd (calculateRelevance F query' ctx')) query config = getOptimalContext F query config"
  by (simp add: getOptimalContext_def calculateRelevance_idem)

lemma snd_getOptimalContext:
  "snd (getOptimalContext F query config) =
     snd (calculateRelevance F query (Some (cfg_contextFiles config)))"
  by (simp add: getOptimalContext_def Let_def)

lemma getOptimalContext_idem:
  "getOptimalContext (snd (getOptimalContext F query' config')) query config = getOptimalContext F query config"
  by (simp only: snd_getOptimalContext getOptimalContext_after_scoring)

lemma calculateRelevance_after_selection:
  "calculateRelevance (snd (getOptimalContext F query' config')) query ctx = calculateRelevance F query ctx"
  by (simp only: snd_getOptimalContext calculateRelevance_idem)

lemma sort_by_score_stable:
  "filter (\<lambda>f. relevanceScore f = k) (sort_by_score fs) = filter (\<lambda>f. relevanceScore f = k) fs"
  using sort_key_stable [of "\<lambda>f. - relevanceScore f" "- k" fs] by (simp add: sort_by_score_def)

lemma lower_unit_no_word:
  assumes "\<not> is_word c" "c \<noteq> 304" "c \<noteq> 8490"
  shows "\<forall>d \<in> set (lower_unit c). \<not> is_word d"
proof (cases "(65 \<le> c \<and> c \<le> 90) \<or> (192 \<le> c \<and> c \<le> 222 \<and> c \<noteq> 215)")
  case True
  with assms(1) have "192 \<le> c \<and> c \<le> 222" by (auto simp: is_word_def)
  then have "\<not> is_word (c + 32)" by (simp add: is_word_def)
  with True show ?thesis by (simp add: lower_unit_def)
next
  case False
  with assms(2,3) have "lower_unit c = [c]"
    unfolding lower_unit_def by (simp only: if_False)
  with assms(1) show ?thesis by simp
qed

lemma word_runs_none: "\<forall>c \<in> set s. \<not> is_word c \<Longrightarrow> word_runs [] s = []"
  by (induction s) simp_all

lemma queryWords_of_none:
  assumes "\<forall>c \<in> set query. \<not> is_word c \<and> c \<noteq> 304 \<and> c \<noteq> 8490"
  shows "queryWords_of query = []"
proof -
  from assms have "\<forall>c \<in> set (toLowerCase query). \<not> is_word c"
    using lower_unit_no_word by (auto simp: toLowerCase_def)
  then have "word_runs [] (toLowerCase query) = []" by (rule word_runs_none)
  then show ?thesis by (simp add: queryWords_of_def)
qed

lemma additive_score_closed:
  assumes bound: "25 + 7 * length qw + 8 * length cf < 2 ^ 53"
  shows "additive_score files qw (Some cf) rp fi
           = of_nat (token_score qw rp fi + (if rp \<in> set cf then 15 else 0)
                     + 8 * length (filter (reaches files rp) cf))"
    and "additive_score files qw None rp fi = of_nat (token_score qw rp fi)"
proof -
  define a :: nat where
    "a = (if list_ex (\<lambda>word. str_includes (toLowerCase (basename rp)) word) qw then 10 else 0)"
  define pm where "pm = length (filter (\<lambda>word. str_includes (toLowerCase rp) word) qw)"
  define cm where "cm = length (filter (\<lambda>word. str_includes (toLowerCase (content fi)) word) qw)"
  define b :: nat where "b = (if rp \<in> set cf then 15 else 0)"
  have pm: "pm \<le> length qw" and cm: "cm \<le> length qw"
    by (simp_all add: pm_def cm_def)
  have a: "a \<le> 10" and b: "b \<le> 15" by (simp_all add: a_def b_def)
  have t: "token_score qw rp fi = a + 5 * pm + 2 * cm"
    by (simp add: token_score_def a_def pm_def cm_def)
  have s1: "(if list_ex (\<lambda>word. str_includes (toLowerCase (basename rp)) word) qw
             then fadd 0 10 else 0) = of_nat a"
    using fadd_of_nat [of 0 10] by (simp add: a_def)
  have "pm * 5 < 2 ^ 53" using pm bound by arith
  then have m1: "fmul (of_nat pm) 5 = of_nat (pm * 5)"
    using fmul_of_nat [of pm 5] by simp
  have s2: "fadd (of_nat a) (of_nat (pm * 5)) = of_nat (a + pm * 5)"
    using a pm bound by (intro fadd_of_nat) arith
  have "cm * 2 < 2 ^ 53" using cm bound by arith
  then have m2: "fmul (of_nat cm) 2 = of_nat (cm * 2)"
    using fmul_of_nat [of cm 2] by simp
  have s3: "fadd (of_nat (a + pm * 5)) (of_nat (cm * 2)) = of_nat (a + pm * 5 + cm * 2)"
    using a pm cm bound by (intro fadd_of_nat) arith
  have "a + pm * 5 + cm * 2 + 15 < 2 ^ 53" using a pm cm bound by arith
  then have s4: "fadd (of_nat (a + pm * 5 + cm * 2)) 15 = of_nat (a + pm * 5 + cm * 2 + 15)"
    using fadd_of_nat [of "a + pm * 5 + cm * 2" 15] by simp
  have s5: "seed_loop files rp cf (of_nat (a + pm * 5 + cm * 2 + b))
      = of_nat (a + pm * 5 + cm * 2 + b + 8 * length (filter (reaches files rp) cf))"
    using a pm cm b bound by (intro seed_loop_of_nat) arith
  have pre: "(if rp \<in> set cf then fadd (of_nat (a + pm * 5 + cm * 2)) 15
              else of_nat (a + pm * 5 + cm * 2)) = of_nat (a + pm * 5 + cm * 2 + b)"
  proof (cases "rp \<in> set cf")
    case True
    then have "b = 15" by (simp add: b_def)
    then have "fadd (of_nat (a + pm * 5 + cm * 2)) 15 = of_nat (a + pm * 5 + cm * 2 + b)"
      by (simp only: s4)
    with True show ?thesis by (simp only: if_True)
  next
    case False
    then have "b = 0" by (simp add: b_def)
    then have "(of_nat (a + pm * 5 + cm * 2) :: rat) = of_nat (a + pm * 5 + cm * 2 + b)"
      by (simp only: add_0_right)
    with False show ?thesis by (simp only: if_False)
  qed
  have "additive_score files qw (Some cf) rp fi
      = seed_loop files rp cf (if rp \<in> set cf then fadd (of_nat (a + pm * 5 + cm * 2)) 15
              else of_nat (a + pm * 5 + cm * 2))"
    unfolding additive_score_def Let_def pm_def [symmetric] cm_def [symmetric]
    by (simp only: s1 m1 s2 m2 s3 option.case)
  also have "\<dots> = of_nat (a + pm * 5 + cm * 2 + b + 8 * length (filter (reaches files rp) cf))"
    by (simp only: pre s5)
  finally show "additive_score files qw (Some cf) rp fi
           = of_nat (token_score qw rp fi + (if rp \<in> set cf then 15 else 0)
                     + 8 * length (filter (reaches files rp) cf))"
    by (simp add: t b_def mult.commute)
  have "additive_score files qw None rp fi = of_nat (a + pm * 5 + cm * 2)"
    unfolding additive_score_def Let_def pm_def [symmetric] cm_def [symmetric]
    by (simp only: s1 m1 s2 m2 s3 option.case if_False)
  then show "additive_score files qw None rp fi = of_nat (token_score qw rp fi)"
    by (simp add: t mult.commute)
qed

lemma reaches_iff:
  "reaches files rp c \<longleftrightarrow>
     (\<exists>ci. map_of files c = Some ci \<and> (\<exists>imp \<in> set (fimports ci). \<exists>ps ss. rp = ps @ imp @ ss))"
  by (auto simp: reaches_def list_ex_iff str_includes_iff split: option.splits)

lemma settings_md_name:
  "toLowerCase (basename (js ''docs/config/settings.md'')) = (js ''settings.md'')"
  "str_includes (toLowerCase (js ''docs/config/settings.md'')) (js ''config'')"
  by code_simp+

lemma entry_names_lower:
  "toLowerCase (js ''package.json'') = (js ''package.json'')"
  "toLowerCase (js ''main.py'') = (js ''main.py'')"
  "toLowerCase (js ''index.ts'') = (js ''index.ts'')"
  by code_simp+


section \<open>Properties of the selector\<close>

lemma floor_met_iff: "(m::rat) \<le> of_nat k \<longleftrightarrow> nat \<lceil>m\<rceil> \<le> k"
proof -
  have "nat \<lceil>m\<rceil> \<le> k \<longleftrightarrow> \<lceil>m\<rceil> \<le> int k" by (simp add: nat_le_iff)
  also have "\<dots> \<longleftrightarrow> m \<le> of_int (int k)" by (rule ceiling_le_iff)
  finally show ?thesis by simp
qed

lemma select_loop_stop:
  assumes "\<forall>g \<in> set xs. relevanceScore g = 0" "minF \<le> of_nat (length sel)"
  shows "select_loop maxT minF xs sel tot = (sel, tot)"
  using assms by (cases xs) simp_all

lemma select_all_zero:
  "\<forall>f \<in> set fs. relevanceScore f = 0 \<Longrightarrow>
   fst (select_loop maxT minF fs sel tot) = sel @ take (nat \<lceil>minF\<rceil> - length sel) fs"
proof (induction fs arbitrary: sel tot)
  case Nil
  show ?case by simp
next
  case (Cons f fs)
  from Cons.prems have z: "relevanceScore f = 0" and rest: "\<forall>g \<in> set fs. relevanceScore g = 0"
    by simp_all
  show ?case
  proof (cases "minF \<le> of_nat (length sel)")
    case True
    then have "nat \<lceil>minF\<rceil> - length sel = 0" by (simp add: floor_met_iff)
    with True z show ?thesis by simp
  next
    case False
    then have lt: "length sel < nat \<lceil>minF\<rceil>" by (simp add: floor_met_iff)
    from False have "select_loop maxT minF (f # fs) sel tot =
        select_loop maxT minF fs (sel @ [f]) (tot + file_tokens f)"
      by simp
    then have "fst (select_loop maxT minF (f # fs) sel tot) =
        fst (select_loop maxT minF fs (sel @ [f]) (tot + file_tokens f))"
      by (rule arg_cong)
    also from Cons.IH [OF rest]
    have "\<dots> = (sel @ [f]) @ take (nat \<lceil>minF\<rceil> - length (sel @ [f])) fs" .
    also have "\<dots> = sel @ take (nat \<lceil>minF\<rceil> - length sel) (f # fs)"
    proof -
      define d where "d = nat \<lceil>minF\<rceil> - Suc (length sel)"
      from lt have e: "nat \<lceil>minF\<rceil> - length sel = Suc d" unfolding d_def by arith
      have "(sel @ [f]) @ take (nat \<lceil>minF\<rceil> - length (sel @ [f])) fs = (sel @ [f]) @ take d fs"
        by (simp add: d_def)
      also have "\<dots> = sel @ take (Suc d) (f # fs)" by simp
      finally show ?thesis by (simp only: e)
    qed
    finally show ?thesis .
  qed
qed

lemma sort_key_const: "\<forall>x \<in> set xs. f x = c \<Longrightarrow> sort_key f xs = xs"
proof (induction xs)
  case Nil
  show ?case by simp
next
  case (Cons x xs)
  then have "sort_key f xs = xs" by simp
  moreover from Cons.prems have "insort_key f x xs = x # xs"
    by (cases xs) simp_all
  ultimately show ?case by simp
qed

lemma falling_sort_by_score: "falling (sort_by_score fs)"
proof -
  have "sorted (map (\<lambda>f. - relevanceScore f) (sort_by_score fs))"
    unfolding sort_by_score_def by (rule sorted_sort_key)
  then show ?thesis
    by (simp add: falling_def sorted_map)
qed

lemma falling_zero_tail:
  assumes "falling (f # rest)" "\<forall>g \<in> set rest. 0 \<le> relevanceScore g"
    and "relevanceScore f = 0"
  shows "\<forall>g \<in> set rest. relevanceScore g = 0"
proof -
  from assms(1,3) have "\<forall>g \<in> set rest. relevanceScore g \<le> 0"
    by (simp add: falling_def)
  with assms(2) show ?thesis
    by (meson order_antisym)
qed

lemma select_skip_tail:
  assumes "falling (f # rest)" "\<forall>g \<in> set rest. 0 \<le> relevanceScore g"
    and "relevanceScore f = 0" "minF \<le> of_nat (length sel)"
  shows "select_loop maxT minF rest sel tot = (sel, tot)"
  using falling_zero_tail [OF assms(1,2,3)] assms(4) by (rule select_loop_stop)

lemma falling_append: "falling (xs @ ys) \<Longrightarrow> falling xs \<and> falling ys"
  by (simp add: falling_def sorted_wrt_append)

lemma select_loop_append:
  assumes "falling (pre @ xs)" "\<forall>g \<in> set (pre @ xs). 0 \<le> relevanceScore g"
  shows "select_loop maxT minF (pre @ xs) sel tot
           = select_loop maxT minF xs (fst (select_loop maxT minF pre sel tot))
               (snd (select_loop maxT minF pre sel tot))"
  using assms
proof (induction pre arbitrary: sel tot)
  case Nil
  show ?case by simp
next
  case (Cons z pre)
  from Cons.prems(1) have f: "falling (pre @ xs)"
    by (simp add: falling_def)
  from Cons.prems(2) have n: "\<forall>g \<in> set (pre @ xs). 0 \<le> relevanceScore g"
    by simp
  note IH = Cons.IH [OF f n]
  show ?case
  proof (cases "relevanceScore z = 0 \<and> minF \<le> of_nat (length sel)")
    case True
    from Cons.prems(1) have "falling (z # (pre @ xs))" by simp
    from falling_zero_tail [OF this n] True
    have "\<forall>g \<in> set xs. relevanceScore g = 0" by simp
    with True have "select_loop maxT minF xs sel tot = (sel, tot)"
      by (intro select_loop_stop) simp_all
    with True show ?thesis by simp
  next
    case stop: False
    show ?thesis
    proof (cases "of_nat (tot + file_tokens z) \<le> maxT \<or> of_nat (length sel) < minF")
      case True
      with stop have "select_loop maxT minF (z # pre @ xs) sel tot
          = select_loop maxT minF (pre @ xs) (sel @ [z]) (tot + file_tokens z)"
        and "select_loop maxT minF (z # pre) sel tot
          = select_loop maxT minF pre (sel @ [z]) (tot + file_tokens z)"
        by auto
      then show ?thesis using IH by simp
    next
      case False
      with stop have "select_loop maxT minF (z # pre @ xs) sel tot
          = select_loop maxT minF (pre @ xs) sel tot"
        and "select_loop maxT minF (z # pre) sel tot = select_loop maxT minF pre sel tot"
        by auto
      then show ?thesis using IH by simp
    qed
  qed
qed

lemma select_loop_extends:
  "\<exists>ys. subseq ys xs
     \<and> select_loop maxT minF xs sel tot = (sel @ ys, tot + sum_list (map file_tokens ys))"
proof (induction xs arbitrary: sel tot)
  case Nil
  show ?case by simp
next
  case (Cons f xs)
  show ?case
  proof (cases "relevanceScore f = 0 \<and> minF \<le> of_nat (length sel)")
    case True
    then have "select_loop maxT minF (f # xs) sel tot = (sel @ [], tot + sum_list (map file_tokens []))"
      by simp
    then show ?thesis by blast
  next
    case stop: False
    show ?thesis
    proof (cases "of_nat (tot + file_tokens f) \<le> maxT \<or> of_nat (length sel) < minF")
      case True
      from Cons.IH [of "sel @ [f]" "tot + file_tokens f"] obtain ys where
        s: "subseq ys xs" and
        e: "select_loop maxT minF xs (sel @ [f]) (tot + file_tokens f)
              = ((sel @ [f]) @ ys, tot + file_tokens f + sum_list (map file_tokens ys))"
        by blast
      from stop True e have "select_loop maxT minF (f # xs) sel tot
          = (sel @ (f # ys), tot + sum_list (map file_tokens (f # ys)))"
        by auto
      moreover from s have "subseq (f # ys) (f # xs)" by simp
      ultimately show ?thesis by blast
    next
      case False
      from Cons.IH [of sel tot] obtain ys where
        s: "subseq ys xs" and
        e: "select_loop maxT minF xs sel tot = (sel @ ys, tot + sum_list (map file_tokens ys))"
        by blast
      from stop False e have "select_loop maxT minF (f # xs) sel tot
          = (sel @ ys, tot + sum_list (map file_tokens ys))"
        by auto
      moreover from s have "subseq ys (f # xs)" by (rule list_emb_Cons)
      ultimately show ?thesis by blast
    qed
  qed
qed

lemma dropWhile_zero:
  assumes "falling S" "\<forall>g \<in> set S. 0 \<le> relevanceScore g"
  shows "\<forall>g \<in> set (dropWhile (\<lambda>f. relevanceScore f \<noteq> 0) S). relevanceScore g = 0"
proof (cases "dropWhile (\<lambda>f. relevanceScore f \<noteq> 0) S")
  case Nil
  show ?thesis unfolding Nil by simp
next
  case (Cons z zs)
  have S: "S = takeWhile (\<lambda>f. relevanceScore f \<noteq> 0) S @ z # zs"
    using takeWhile_dropWhile_id [of "\<lambda>f. relevanceScore f \<noteq> 0" S] Cons by simp
  from hd_dropWhile [of "\<lambda>f. relevanceScore f \<noteq> 0" S] Cons have z: "relevanceScore z = 0"
    by simp
  from assms(1) S have f: "falling (z # zs)"
    using falling_append by metis
  from assms(2) S have "\<forall>g \<in> set zs. 0 \<le> relevanceScore g"
    by (metis in_set_conv_decomp list.set_intros(2) Un_iff set_append)
  from falling_zero_tail [OF f this z] z Cons show ?thesis by simp
qed

lemma getOptimalContext_walk:
  "fst (getOptimalContext files query config)
     = fst (select_loop (cfg_maxTokens config) (cfg_minFiles config)
         (sorted_files files query config) [] 0)"
  by (simp add: getOptimalContext_def sorted_files_def Let_def)

lemma sortedFiles_falling_nonneg:
  "falling (sort_by_score (map snd (snd (calculateRelevance files query ctx))))"
  "\<forall>g \<in> set (sort_by_score (map snd (snd (calculateRelevance files query ctx)))).
     0 \<le> relevanceScore g"
proof -
  show "falling (sort_by_score (map snd (snd (calculateRelevance files query ctx))))"
    by (rule falling_sort_by_score)
  show "\<forall>g \<in> set (sort_by_score (map snd (snd (calculateRelevance files query ctx)))).
     0 \<le> relevanceScore g"
    by (simp add: sort_by_score_def calculateRelevance_files scored_entry_def file_score_nonneg)
qed


lemma update_values:
  "\<forall>e \<in> set acc. P (snd e) \<Longrightarrow> P v \<Longrightarrow> \<forall>e \<in> set (AList.update k v acc). P (snd e)"
  by (induction acc) auto

lemma fold_update_values:
  "\<forall>e \<in> set acc. P (snd e) \<Longrightarrow> \<forall>x \<in> set xs. P (g x) \<Longrightarrow>
   \<forall>e \<in> set (fold (\<lambda>x acc. AList.update (fst x) (g x) acc) xs acc). P (snd e)"
proof (induction xs arbitrary: acc)
  case Nil
  then show ?case by simp
next
  case (Cons x xs)
  from Cons.prems have "\<forall>e \<in> set (AList.update (fst x) (g x) acc). P (snd e)"
    by (intro update_values) simp_all
  moreover from Cons.prems have "\<forall>y \<in> set xs. P (g y)" by simp
  ultimately show ?case using Cons.IH by simp
qed


section \<open>The entries of the returned map\<close>

lemma map_of_map_entry:
  "map_of (map (\<lambda>e. (fst e, g (fst e) (snd e))) xs) k = map_option (g k) (map_of xs k)"
  by (induction xs) auto

lemma calculateRelevance_lookup:
  assumes "distinct (map fst files)" "map_of files rp = Some fi"
  shows "map_of (fst (calculateRelevance files query ctx)) rp
           = Some (file_score files (queryWords_of query) ctx rp fi)"
    and "map_of (snd (calculateRelevance files query ctx)) rp
           = Some (fi\<lparr>relevanceScore := file_score files (queryWords_of query) ctx rp fi\<rparr>)"
proof -
  let ?qw = "queryWords_of query"
  have "fst (calculateRelevance files query ctx)
      = map (\<lambda>e. (fst e, file_score files ?qw ctx (fst e) (snd e))) files"
    using calculateRelevance_scores [OF assms(1), of query ctx]
    by (simp add: score_entry_def [abs_def])
  then show "map_of (fst (calculateRelevance files query ctx)) rp
           = Some (file_score files ?qw ctx rp fi)"
    using map_of_map_entry [of "file_score files ?qw ctx" files rp] assms(2) by simp
  have "snd (calculateRelevance files query ctx)
      = map (\<lambda>e. (fst e, (\<lambda>k v. v\<lparr>relevanceScore := file_score files ?qw ctx k v\<rparr>) (fst e) (snd e)))
          files"
    by (simp add: calculateRelevance_files scored_entry_def [abs_def])
  then show "map_of (snd (calculateRelevance files query ctx)) rp
           = Some (fi\<lparr>relevanceScore := file_score files ?qw ctx rp fi\<rparr>)"
    using map_of_map_entry
      [of "\<lambda>k v. v\<lparr>relevanceScore := file_score files ?qw ctx k v\<rparr>" files rp] assms(2)
    by simp
qed

lemma calculateRelevance_record:
  assumes "distinct (map fst files)" "map_of files rp = Some fi"
  shows "map_option relevanceScore (map_of (snd (calculateRelevance files query ctx)) rp)
           = map_of (fst (calculateRelevance files query ctx)) rp"
  by (simp add: calculateRelevance_lookup [OF assms])

lemma additive_score_no_seed:
  assumes "rp \<noteq> c" "\<not> reaches files rp c"
  shows "additive_score files qw (Some [c]) rp fi = additive_score files qw None rp fi"
  using assms by (simp add: additive_score_def Let_def)


section \<open>The claims about the scorer\<close>

text \<open>
  Claim C1, as amended. For a file of the catalog, as long as the sums stay below
  \<open>2 ^ 53\<close>, where the additions of the source are exact, the score that
  \<^verbatim>\<open>calculateRelevance\<close> returns in its map and writes into the record is the decay and the
  entry-point boost of a sum: the terms of the query words, 15 when the file is itself in
  \<^verbatim>\<open>contextFiles\<close>, and 8 for each entry of \<^verbatim>\<open>contextFiles\<close> that reaches the file (an entry
  listed twice counts twice). An entry reaches the file when it is a key of the catalog and
  one of its imports is a substring of the relative path of the file. A seed \<^verbatim>\<open>api.ts\<close> whose
  only import is \<^verbatim>\<open>./db\<close> does not reach \<^verbatim>\<open>src/db/client.ts\<close>: with \<^verbatim>\<open>api.ts\<close> as the only
  context file the score of \<^verbatim>\<open>src/db/client.ts\<close> is its score without context files.
\<close>

theorem seed_boost_per_reaching_seed:
  assumes "distinct (map fst files)"
    and "map_of files rp = Some fi"
    and "25 + 7 * length (queryWords_of query) + 8 * length cf < 2 ^ 53"
  shows "map_of (fst (calculateRelevance files query (Some cf))) rp
           = Some (entry_boost (toLowerCase (basename rp))
               (apply_decay (extension fi) (toLowerCase rp)
                  (of_nat (token_score (queryWords_of query) rp fi
                           + (if rp \<in> set cf then 15 else 0)
                           + 8 * length (filter (reaches files rp) cf)))))
       \<and> map_option relevanceScore (map_of (snd (calculateRelevance files query (Some cf))) rp)
           = map_of (fst (calculateRelevance files query (Some cf))) rp
       \<and> (\<forall>c. reaches files rp c \<longleftrightarrow>
             (\<exists>ci. map_of files c = Some ci
                \<and> (\<exists>imp \<in> set (fimports ci). \<exists>ps ss. rp = ps @ imp @ ss)))
       \<and> (rp = js ''src/db/client.ts'' \<and> map_of files (js ''api.ts'') = Some ci
            \<and> fimports ci = [js ''./db'']
          \<longrightarrow> map_of (fst (calculateRelevance files query (Some [js ''api.ts'']))) rp
              = map_of (fst (calculateRelevance files query None)) rp)"
proof (intro conjI allI impI)
  show "map_of (fst (calculateRelevance files query (Some cf))) rp
           = Some (entry_boost (toLowerCase (basename rp))
               (apply_decay (extension fi) (toLowerCase rp)
                  (of_nat (token_score (queryWords_of query) rp fi
                           + (if rp \<in> set cf then 15 else 0)
                           + 8 * length (filter (reaches files rp) cf)))))"
    by (simp only: calculateRelevance_lookup(1) [OF assms(1,2)] file_score_def
        additive_score_closed(1) [OF assms(3)])
next
  show "map_option relevanceScore (map_of (snd (calculateRelevance files query (Some cf))) rp)
           = map_of (fst (calculateRelevance files query (Some cf))) rp"
    using assms(1,2) by (rule calculateRelevance_record)
next
  fix c
  show "reaches files rp c \<longleftrightarrow>
        (\<exists>ci. map_of files c = Some ci
           \<and> (\<exists>imp \<in> set (fimports ci). \<exists>ps ss. rp = ps @ imp @ ss))"
    by (rule reaches_iff)
next
  assume a: "rp = js ''src/db/client.ts'' \<and> map_of files (js ''api.ts'') = Some ci
            \<and> fimports ci = [js ''./db'']"
  have "\<not> str_includes (js ''src/db/client.ts'') (js ''./db'')" by code_simp
  with a have n: "\<not> reaches files rp (js ''api.ts'')"
    by (simp add: reaches_def)
  from a have d: "rp \<noteq> js ''api.ts''" by simp
  show "map_of (fst (calculateRelevance files query (Some [js ''api.ts'']))) rp
      = map_of (fst (calculateRelevance files query None)) rp"
    by (simp only: calculateRelevance_lookup(1) [OF assms(1,2)] file_score_def
        additive_score_no_seed [OF d n])
qed

text \<open>
  Claim C1 at a concrete input: for the query \<^verbatim>\<open>db\<close>, a seed listed twice that imports \<^verbatim>\<open>db\<close>
  adds 16 to the 5 of the path match of \<^verbatim>\<open>src/db/client.py\<close>, and an entry that is not in the
  catalog adds nothing. The scanned file \<^verbatim>\<open>api.ts\<close> with the import \<^verbatim>\<open>./db\<close> leaves the score of
  \<^verbatim>\<open>src/db/client.ts\<close> as it is without context files.
\<close>

theorem seed_boost_per_reaching_seed_witness:
  "distinct (map fst
      [scanned_entry (js ''app.py'') 9 (js ''.py'') (js ''import db''),
       scanned_entry (js ''src/db/client.py'') 8 (js ''.py'') (js ''conn = 1'')])
   \<and> 25 + 7 * length (queryWords_of (js ''db''))
        + 8 * length [js ''app.py'', js ''gone.py'', js ''app.py''] < (2::nat) ^ 53
   \<and> map_of (fst (calculateRelevance
        [scanned_entry (js ''app.py'') 9 (js ''.py'') (js ''import db''),
         scanned_entry (js ''src/db/client.py'') 8 (js ''.py'') (js ''conn = 1'')]
        (js ''db'') (Some [js ''app.py'', js ''gone.py'', js ''app.py'']))) (js ''src/db/client.py'')
       = Some 21
   \<and> fimports (snd (scanned_entry (js ''api.ts'') 25 (js ''.ts'')
          (js ''import { db } from '' @ [34] @ js ''./db'' @ [34]))) = [js ''./db'']
   \<and> map_of (fst (calculateRelevance
        [scanned_entry (js ''api.ts'') 25 (js ''.ts'')
           (js ''import { db } from '' @ [34] @ js ''./db'' @ [34]),
         scanned_entry (js ''src/db/client.ts'') 19 (js ''.ts'') (js ''export const db = 1'')]
        (js ''fix db bug'') (Some [js ''api.ts'']))) (js ''src/db/client.ts'')
       = map_of (fst (calculateRelevance
        [scanned_entry (js ''api.ts'') 25 (js ''.ts'')
           (js ''import { db } from '' @ [34] @ js ''./db'' @ [34]),
         scanned_entry (js ''src/db/client.ts'') 19 (js ''.ts'') (js ''export const db = 1'')]
        (js ''fix db bug'') None)) (js ''src/db/client.ts'')"
proof -
  define files where "files =
      [scanned_entry (js ''app.py'') 9 (js ''.py'') (js ''import db''),
       scanned_entry (js ''src/db/client.py'') 8 (js ''.py'') (js ''conn = 1'')]"
  define fi where "fi = snd (scanned_entry (js ''src/db/client.py'') 8 (js ''.py'') (js ''conn = 1''))"
  define cf where "cf = [js ''app.py'', js ''gone.py'', js ''app.py'']"
  define api where "api = scanned_entry (js ''api.ts'') 25 (js ''.ts'')
      (js ''import { db } from '' @ [34] @ js ''./db'' @ [34])"
  define cl where "cl = scanned_entry (js ''src/db/client.ts'') 19 (js ''.ts'') (js ''export const db = 1'')"
  have h1: "distinct (map fst files)" unfolding files_def by code_simp
  have h2: "map_of files (js ''src/db/client.py'') = Some fi"
    unfolding files_def fi_def by code_simp
  have q: "queryWords_of (js ''db'') = [js ''db'']" by code_simp
  have h3: "25 + 7 * length (queryWords_of (js ''db'')) + 8 * length cf < (2::nat) ^ 53"
    unfolding q cf_def by simp
  from seed_boost_per_reaching_seed [OF h1 h2 h3]
  have "map_of (fst (calculateRelevance files (js ''db'') (Some cf))) (js ''src/db/client.py'')
      = Some (entry_boost (toLowerCase (basename (js ''src/db/client.py'')))
          (apply_decay (extension fi) (toLowerCase (js ''src/db/client.py''))
             (of_nat (token_score (queryWords_of (js ''db'')) (js ''src/db/client.py'') fi
                      + (if js ''src/db/client.py'' \<in> set cf then 15 else 0)
                      + 8 * length (filter (reaches files (js ''src/db/client.py'')) cf)))))"
    by blast
  moreover have "token_score (queryWords_of (js ''db'')) (js ''src/db/client.py'') fi = 5"
    unfolding fi_def by code_simp
  moreover have "filter (reaches files (js ''src/db/client.py'')) cf = [js ''app.py'', js ''app.py'']"
    unfolding files_def cf_def by code_simp
  moreover have "js ''src/db/client.py'' \<notin> set cf"
    unfolding cf_def by simp
  moreover have "entry_boost (toLowerCase (basename (js ''src/db/client.py'')))
          (apply_decay (extension fi) (toLowerCase (js ''src/db/client.py'')) 21) = 21"
    unfolding fi_def by code_simp
  ultimately have r: "map_of (fst (calculateRelevance files (js ''db'') (Some cf)))
      (js ''src/db/client.py'') = Some 21"
    by simp
  have g1: "distinct (map fst [api, cl])" unfolding api_def cl_def by code_simp
  have g2: "map_of [api, cl] (js ''src/db/client.ts'') = Some (snd cl)"
    unfolding api_def cl_def by code_simp
  have g3: "25 + 7 * length (queryWords_of (js ''fix db bug'')) + 8 * length ([] :: jsstring list)
      < (2::nat) ^ 53"
  proof -
    have "queryWords_of (js ''fix db bug'') = [js ''fix'', js ''db'', js ''bug'']" by code_simp
    then show ?thesis by simp
  qed
  have m: "map_of [api, cl] (js ''api.ts'') = Some (snd api)"
    unfolding api_def cl_def by code_simp
  have i: "fimports (snd api) = [js ''./db'']" unfolding api_def by code_simp
  from seed_boost_per_reaching_seed [OF g1 g2 g3, of "snd api"] m i
  have n: "map_of (fst (calculateRelevance [api, cl] (js ''fix db bug'') (Some [js ''api.ts''])))
        (js ''src/db/client.ts'')
      = map_of (fst (calculateRelevance [api, cl] (js ''fix db bug'') None)) (js ''src/db/client.ts'')"
    by blast
  from h1 h3 r i n have "distinct (map fst files)
      \<and> 25 + 7 * length (queryWords_of (js ''db'')) + 8 * length cf < (2::nat) ^ 53
      \<and> map_of (fst (calculateRelevance files (js ''db'') (Some cf))) (js ''src/db/client.py'') = Some 21
      \<and> fimports (snd api) = [js ''./db'']
      \<and> map_of (fst (calculateRelevance [api, cl] (js ''fix db bug'') (Some [js ''api.ts''])))
          (js ''src/db/client.ts'')
        = map_of (fst (calculateRelevance [api, cl] (js ''fix db bug'') None)) (js ''src/db/client.ts'')"
    by (simp only: simp_thms)
  then show ?thesis unfolding files_def cf_def api_def cl_def .
qed

text \<open>
  Claim C1 as stated fails on its own example: with \<^verbatim>\<open>api.ts\<close> importing \<^verbatim>\<open>./db\<close> and
  the query \<^verbatim>\<open>fix db bug\<close>, the score of \<^verbatim>\<open>src/db/client.ts\<close> is 7 with \<^verbatim>\<open>api.ts\<close> in
  \<^verbatim>\<open>contextFiles\<close> and 7 without any context file: nothing is added.
\<close>

theorem seed_boost_api_db_counterexample:
  "fimports (snd (scanned_entry (js ''api.ts'') 25 (js ''.ts'')
       (js ''import { db } from '' @ [34] @ js ''./db'' @ [34]))) = [js ''./db'']
   \<and> map_of (fst (calculateRelevance
        [scanned_entry (js ''api.ts'') 25 (js ''.ts'')
           (js ''import { db } from '' @ [34] @ js ''./db'' @ [34]),
         scanned_entry (js ''src/db/client.ts'') 19 (js ''.ts'') (js ''export const db = 1'')]
        (js ''fix db bug'') (Some [js ''api.ts'']))) (js ''src/db/client.ts'') = Some 7
   \<and> map_of (fst (calculateRelevance
        [scanned_entry (js ''api.ts'') 25 (js ''.ts'')
           (js ''import { db } from '' @ [34] @ js ''./db'' @ [34]),
         scanned_entry (js ''src/db/client.ts'') 19 (js ''.ts'') (js ''export const db = 1'')]
        (js ''fix db bug'') None)) (js ''src/db/client.ts'') = Some 7"
  by code_simp


text \<open>
  Claim C5. For a file of the catalog, the score that \<^verbatim>\<open>calculateRelevance\<close> returns is the
  entry-point boost of the sum of the additive terms decayed once, by the first rule
  that matches, in the order: extension \<^verbatim>\<open>.md\<close> or \<^verbatim>\<open>.txt\<close> (times 0.5), else \<^verbatim>\<open>test\<close> or
  \<^verbatim>\<open>spec\<close> in the lower-cased path (times 0.7), else \<^verbatim>\<open>config\<close> in the lower-cased path or
  extension \<^verbatim>\<open>.json\<close>, \<^verbatim>\<open>.yaml\<close>, \<^verbatim>\<open>.yml\<close>, \<^verbatim>\<open>.toml\<close> (times 0.8), else no decay. The file
  \<^verbatim>\<open>docs/config/settings.md\<close> with extension \<^verbatim>\<open>.md\<close> has \<^verbatim>\<open>config\<close> in its path and its score
  is the sum of the additive terms times 0.5, which is exactly one half. The score
  written into the record of the file is the score of the map.
\<close>

theorem decay_precedence:
  assumes "distinct (map fst files)"
    and "map_of files rp = Some fi"
  shows "(extension fi \<in> {js ''.md'', js ''.txt''} \<longrightarrow>
      map_of (fst (calculateRelevance files query ctx)) rp
        = Some (entry_boost (toLowerCase (basename rp))
            (fmul (additive_score files (queryWords_of query) ctx rp fi) lit_0_5)))
   \<and> (extension fi \<notin> {js ''.md'', js ''.txt''}
        \<and> (str_includes (toLowerCase rp) (js ''test'') \<or> str_includes (toLowerCase rp) (js ''spec'')) \<longrightarrow>
      map_of (fst (calculateRelevance files query ctx)) rp
        = Some (entry_boost (toLowerCase (basename rp))
            (fmul (additive_score files (queryWords_of query) ctx rp fi) lit_0_7)))
   \<and> (extension fi \<notin> {js ''.md'', js ''.txt''}
        \<and> \<not> str_includes (toLowerCase rp) (js ''test'') \<and> \<not> str_includes (toLowerCase rp) (js ''spec'')
        \<and> (str_includes (toLowerCase rp) (js ''config'')
            \<or> extension fi \<in> {js ''.json'', js ''.yaml'', js ''.yml'', js ''.toml''}) \<longrightarrow>
      map_of (fst (calculateRelevance files query ctx)) rp
        = Some (entry_boost (toLowerCase (basename rp))
            (fmul (additive_score files (queryWords_of query) ctx rp fi) lit_0_8)))
   \<and> (extension fi \<notin> {js ''.md'', js ''.txt''}
        \<and> \<not> str_includes (toLowerCase rp) (js ''test'') \<and> \<not> str_includes (toLowerCase rp) (js ''spec'')
        \<and> \<not> str_includes (toLowerCase rp) (js ''config'')
        \<and> extension fi \<notin> {js ''.json'', js ''.yaml'', js ''.yml'', js ''.toml''} \<longrightarrow>
      map_of (fst (calculateRelevance files query ctx)) rp
        = Some (entry_boost (toLowerCase (basename rp))
            (additive_score files (queryWords_of query) ctx rp fi)))
   \<and> (rp = js ''docs/config/settings.md'' \<and> extension fi = js ''.md'' \<longrightarrow>
      str_includes (toLowerCase rp) (js ''config'')
      \<and> map_of (fst (calculateRelevance files query ctx)) rp
          = Some (fmul (additive_score files (queryWords_of query) ctx rp fi) lit_0_5))
   \<and> lit_0_5 = 1 / 2
   \<and> map_option relevanceScore (map_of (snd (calculateRelevance files query ctx)) rp)
       = map_of (fst (calculateRelevance files query ctx)) rp"
proof (intro conjI impI)
  let ?qw = "queryWords_of query"
  note sc = calculateRelevance_lookup(1) [OF assms, of query ctx]
  {
    assume "extension fi \<in> {js ''.md'', js ''.txt''}"
    then show "map_of (fst (calculateRelevance files query ctx)) rp
        = Some (entry_boost (toLowerCase (basename rp))
            (fmul (additive_score files ?qw ctx rp fi) lit_0_5))"
      by (simp add: sc file_score_def apply_decay_def)
  next
    assume "extension fi \<notin> {js ''.md'', js ''.txt''}
        \<and> (str_includes (toLowerCase rp) (js ''test'') \<or> str_includes (toLowerCase rp) (js ''spec''))"
    then show "map_of (fst (calculateRelevance files query ctx)) rp
        = Some (entry_boost (toLowerCase (basename rp))
            (fmul (additive_score files ?qw ctx rp fi) lit_0_7))"
      by (simp add: sc file_score_def apply_decay_def)
  next
    assume "extension fi \<notin> {js ''.md'', js ''.txt''}
        \<and> \<not> str_includes (toLowerCase rp) (js ''test'') \<and> \<not> str_includes (toLowerCase rp) (js ''spec'')
        \<and> (str_includes (toLowerCase rp) (js ''config'')
            \<or> extension fi \<in> {js ''.json'', js ''.yaml'', js ''.yml'', js ''.toml''})"
    then show "map_of (fst (calculateRelevance files query ctx)) rp
        = Some (entry_boost (toLowerCase (basename rp))
            (fmul (additive_score files ?qw ctx rp fi) lit_0_8))"
      by (simp add: sc file_score_def apply_decay_def)
  next
    assume "extension fi \<notin> {js ''.md'', js ''.txt''}
        \<and> \<not> str_includes (toLowerCase rp) (js ''test'') \<and> \<not> str_includes (toLowerCase rp) (js ''spec'')
        \<and> \<not> str_includes (toLowerCase rp) (js ''config'')
        \<and> extension fi \<notin> {js ''.json'', js ''.yaml'', js ''.yml'', js ''.toml''}"
    then show "map_of (fst (calculateRelevance files query ctx)) rp
        = Some (entry_boost (toLowerCase (basename rp)) (additive_score files ?qw ctx rp fi))"
      by (simp add: sc file_score_def apply_decay_def)
  next
    assume a: "rp = js ''docs/config/settings.md'' \<and> extension fi = js ''.md''"
    then show "str_includes (toLowerCase rp) (js ''config'')"
      by (simp only: settings_md_name)
  next
    assume a: "rp = js ''docs/config/settings.md'' \<and> extension fi = js ''.md''"
    have "entry_boost (js ''settings.md'') s = s" for s
      by (simp add: entry_boost_def)
    with a have "file_score files ?qw ctx rp fi = fmul (additive_score files ?qw ctx rp fi) lit_0_5"
      by (simp add: file_score_def apply_decay_def settings_md_name(1))
    then show "map_of (fst (calculateRelevance files query ctx)) rp
        = Some (fmul (additive_score files ?qw ctx rp fi) lit_0_5)"
      by (simp only: sc)
  next
    show "lit_0_5 = 1 / 2" by (rule lit_0_5_value)
  next
    show "map_option relevanceScore (map_of (snd (calculateRelevance files query ctx)) rp)
       = map_of (fst (calculateRelevance files query ctx)) rp"
      using assms by (rule calculateRelevance_record)
  }
qed

text \<open>
  Claim C5 at a concrete input: a catalog with one file for each of the four cases of the
  decay, scored for the query \<^verbatim>\<open>config settings test app\<close>.
\<close>

theorem decay_precedence_witness:
  "distinct (map fst
      [scanned_entry (js ''docs/config/settings.md'') 15 (js ''.md'') (js ''config settings''),
       scanned_entry (js ''test/a_test.py'') 9 (js ''.py'') (js ''import os''),
       scanned_entry (js ''lib/config.ts'') 9 (js ''.ts'') (js ''export {}''),
       scanned_entry (js ''src/app.ts'') 9 (js ''.ts'') (js ''export {}'')])
   \<and> fst (calculateRelevance
      [scanned_entry (js ''docs/config/settings.md'') 15 (js ''.md'') (js ''config settings''),
       scanned_entry (js ''test/a_test.py'') 9 (js ''.py'') (js ''import os''),
       scanned_entry (js ''lib/config.ts'') 9 (js ''.ts'') (js ''export {}''),
       scanned_entry (js ''src/app.ts'') 9 (js ''.ts'') (js ''export {}'')]
      (js ''config settings test app'') None)
     = [(js ''docs/config/settings.md'', 12), (js ''test/a_test.py'', 21 / 2),
        (js ''lib/config.ts'', 12), (js ''src/app.ts'', 15)]"
proof -
  define md where "md = snd (scanned_entry (js ''docs/config/settings.md'') 15 (js ''.md'') (js ''config settings''))"
  define ts where "ts = snd (scanned_entry (js ''test/a_test.py'') 9 (js ''.py'') (js ''import os''))"
  define cf where "cf = snd (scanned_entry (js ''lib/config.ts'') 9 (js ''.ts'') (js ''export {}''))"
  define pl where "pl = snd (scanned_entry (js ''src/app.ts'') 9 (js ''.ts'') (js ''export {}''))"
  define files where "files =
      [scanned_entry (js ''docs/config/settings.md'') 15 (js ''.md'') (js ''config settings''),
       scanned_entry (js ''test/a_test.py'') 9 (js ''.py'') (js ''import os''),
       scanned_entry (js ''lib/config.ts'') 9 (js ''.ts'') (js ''export {}''),
       scanned_entry (js ''src/app.ts'') 9 (js ''.ts'') (js ''export {}'')]"
  define q where "q = js ''config settings test app''"
  have d: "distinct (map fst files)" unfolding files_def by code_simp
  have k: "map fst (fst (calculateRelevance files q None))
      = [js ''docs/config/settings.md'', js ''test/a_test.py'', js ''lib/config.ts'', js ''src/app.ts'']"
    unfolding files_def q_def by code_simp
  have m1: "map_of files (js ''docs/config/settings.md'') = Some md"
    unfolding files_def md_def by code_simp
  have m2: "map_of files (js ''test/a_test.py'') = Some ts"
    unfolding files_def ts_def by code_simp
  have m3: "map_of files (js ''lib/config.ts'') = Some cf"
    unfolding files_def cf_def by code_simp
  have m4: "map_of files (js ''src/app.ts'') = Some pl"
    unfolding files_def pl_def by code_simp
  have h1: "js ''docs/config/settings.md'' = js ''docs/config/settings.md'' \<and> extension md = js ''.md''"
    unfolding md_def by code_simp
  from decay_precedence [OF d m1, of q None] h1
  have "map_of (fst (calculateRelevance files q None)) (js ''docs/config/settings.md'')
      = Some (fmul (additive_score files (queryWords_of q) None (js ''docs/config/settings.md'') md)
          lit_0_5)"
    by blast
  moreover have "fmul (additive_score files (queryWords_of q) None
      (js ''docs/config/settings.md'') md) lit_0_5 = 12"
    unfolding files_def q_def md_def by code_simp
  ultimately have r1: "map_of (fst (calculateRelevance files q None)) (js ''docs/config/settings.md'')
      = Some 12"
    by simp
  have h2: "extension ts \<notin> {js ''.md'', js ''.txt''}
      \<and> (str_includes (toLowerCase (js ''test/a_test.py'')) (js ''test'')
         \<or> str_includes (toLowerCase (js ''test/a_test.py'')) (js ''spec''))"
    unfolding ts_def by code_simp
  from decay_precedence [OF d m2, of q None] h2
  have "map_of (fst (calculateRelevance files q None)) (js ''test/a_test.py'')
      = Some (entry_boost (toLowerCase (basename (js ''test/a_test.py'')))
          (fmul (additive_score files (queryWords_of q) None (js ''test/a_test.py'') ts) lit_0_7))"
    by blast
  moreover have "entry_boost (toLowerCase (basename (js ''test/a_test.py'')))
          (fmul (additive_score files (queryWords_of q) None (js ''test/a_test.py'') ts) lit_0_7)
      = 21 / 2"
    unfolding files_def q_def ts_def by code_simp
  ultimately have r2: "map_of (fst (calculateRelevance files q None)) (js ''test/a_test.py'')
      = Some (21 / 2)"
    by simp
  have h3: "extension cf \<notin> {js ''.md'', js ''.txt''}
      \<and> \<not> str_includes (toLowerCase (js ''lib/config.ts'')) (js ''test'')
      \<and> \<not> str_includes (toLowerCase (js ''lib/config.ts'')) (js ''spec'')
      \<and> (str_includes (toLowerCase (js ''lib/config.ts'')) (js ''config'')
          \<or> extension cf \<in> {js ''.json'', js ''.yaml'', js ''.yml'', js ''.toml''})"
    unfolding cf_def by code_simp
  from decay_precedence [OF d m3, of q None] h3
  have "map_of (fst (calculateRelevance files q None)) (js ''lib/config.ts'')
      = Some (entry_boost (toLowerCase (basename (js ''lib/config.ts'')))
          (fmul (additive_score files (queryWords_of q) None (js ''lib/config.ts'') cf) lit_0_8))"
    by blast
  moreover have "entry_boost (toLowerCase (basename (js ''lib/config.ts'')))
          (fmul (additive_score files (queryWords_of q) None (js ''lib/config.ts'') cf) lit_0_8) = 12"
    unfolding files_def q_def cf_def by code_simp
  ultimately have r3: "map_of (fst (calculateRelevance files q None)) (js ''lib/config.ts'') = Some 12"
    by simp
  have h4: "extension pl \<notin> {js ''.md'', js ''.txt''}
      \<and> \<not> str_includes (toLowerCase (js ''src/app.ts'')) (js ''test'')
      \<and> \<not> str_includes (toLowerCase (js ''src/app.ts'')) (js ''spec'')
      \<and> \<not> str_includes (toLowerCase (js ''src/app.ts'')) (js ''config'')
      \<and> extension pl \<notin> {js ''.json'', js ''.yaml'', js ''.yml'', js ''.toml''}"
    unfolding pl_def by code_simp
  from decay_precedence [OF d m4, of q None] h4
  have "map_of (fst (calculateRelevance files q None)) (js ''src/app.ts'')
      = Some (entry_boost (toLowerCase (basename (js ''src/app.ts'')))
          (additive_score files (queryWords_of q) None (js ''src/app.ts'') pl))"
    by blast
  moreover have "entry_boost (toLowerCase (basename (js ''src/app.ts'')))
          (additive_score files (queryWords_of q) None (js ''src/app.ts'') pl) = 15"
    unfolding files_def q_def pl_def by code_simp
  ultimately have r4: "map_of (fst (calculateRelevance files q None)) (js ''src/app.ts'') = Some 15"
    by simp
  have e: "xs = [(a, va), (b, vb), (c, vc), (e, ve)]"
    if "map fst xs = [a, b, c, e]" "distinct [a, b, c, e]"
      "map_of xs a = Some va" "map_of xs b = Some vb" "map_of xs c = Some vc" "map_of xs e = Some ve"
    for xs :: "(jsstring \<times> rat) list" and a b c e va vb vc ve
    using that by (auto simp: map_eq_Cons_conv)
  have "fst (calculateRelevance files q None)
     = [(js ''docs/config/settings.md'', 12), (js ''test/a_test.py'', 21 / 2),
        (js ''lib/config.ts'', 12), (js ''src/app.ts'', 15)]"
    by (rule e [OF k _ r1 r2 r3 r4]) simp
  with d have "distinct (map fst files)
     \<and> fst (calculateRelevance files q None)
     = [(js ''docs/config/settings.md'', 12), (js ''test/a_test.py'', 21 / 2),
        (js ''lib/config.ts'', 12), (js ''src/app.ts'', 15)]"
    by (simp only: simp_thms)
  then show ?thesis unfolding files_def q_def .
qed


text \<open>
  Claim C6. For a file of the catalog whose base name is \<^verbatim>\<open>package.json\<close>, \<^verbatim>\<open>main.py\<close> or
  \<^verbatim>\<open>index.ts\<close>, the score that \<^verbatim>\<open>calculateRelevance\<close> returns in its map and writes into the
  record is the decayed sum of the additive terms plus 5: the 5 is added after the
  multiplication, the decayed sum is the sum times 0.5, 0.7 or 0.8, or the sum itself, and
  the score is never below 5.
\<close>

theorem entry_boost_after_decay:
  assumes "distinct (map fst files)"
    and "map_of files rp = Some fi"
    and "basename rp \<in> {js ''package.json'', js ''main.py'', js ''index.ts''}"
  shows "map_of (fst (calculateRelevance files query ctx)) rp
           = Some (fadd (apply_decay (extension fi) (toLowerCase rp)
                (additive_score files (queryWords_of query) ctx rp fi)) 5)
       \<and> map_option relevanceScore (map_of (snd (calculateRelevance files query ctx)) rp)
           = Some (fadd (apply_decay (extension fi) (toLowerCase rp)
                (additive_score files (queryWords_of query) ctx rp fi)) 5)
       \<and> apply_decay (extension fi) (toLowerCase rp)
             (additive_score files (queryWords_of query) ctx rp fi)
           \<in> {fmul (additive_score files (queryWords_of query) ctx rp fi) lit_0_5,
              fmul (additive_score files (queryWords_of query) ctx rp fi) lit_0_7,
              fmul (additive_score files (queryWords_of query) ctx rp fi) lit_0_8,
              additive_score files (queryWords_of query) ctx rp fi}
       \<and> 5 \<le> fadd (apply_decay (extension fi) (toLowerCase rp)
                (additive_score files (queryWords_of query) ctx rp fi)) 5"
proof (intro conjI)
  let ?A = "additive_score files (queryWords_of query) ctx rp fi"
  from assms(3) have "toLowerCase (basename rp) \<in> {js ''package.json'', js ''main.py'', js ''index.ts''}"
    using entry_names_lower by auto
  then have b: "entry_boost (toLowerCase (basename rp)) s = fadd s 5" for s
    unfolding entry_boost_def by auto
  then have e: "file_score files (queryWords_of query) ctx rp fi
           = fadd (apply_decay (extension fi) (toLowerCase rp) ?A) 5"
    by (simp only: file_score_def)
  from calculateRelevance_lookup(1) [OF assms(1,2), of query ctx]
  show m: "map_of (fst (calculateRelevance files query ctx)) rp
           = Some (fadd (apply_decay (extension fi) (toLowerCase rp) ?A) 5)"
    by (simp only: e)
  from calculateRelevance_record [OF assms(1,2), of query ctx]
  show "map_option relevanceScore (map_of (snd (calculateRelevance files query ctx)) rp)
           = Some (fadd (apply_decay (extension fi) (toLowerCase rp) ?A) 5)"
    by (simp only: m)
  have "0 \<le> apply_decay (extension fi) (toLowerCase rp) ?A"
    by (intro apply_decay_nonneg additive_score_nonneg)
  then have "of_nat 5 \<le> apply_decay (extension fi) (toLowerCase rp) ?A + 5"
    by simp
  then have "of_nat 5 \<le> round_double (apply_decay (extension fi) (toLowerCase rp) ?A + 5)"
    by (intro round_double_ge_of_nat) simp_all
  then show "5 \<le> fadd (apply_decay (extension fi) (toLowerCase rp) ?A) 5"
    by (simp add: fadd_def)
  show "apply_decay (extension fi) (toLowerCase rp) ?A
           \<in> {fmul ?A lit_0_5, fmul ?A lit_0_7, fmul ?A lit_0_8, ?A}"
    unfolding apply_decay_def by (simp only: insert_iff split: if_split) blast
qed

text \<open>
  Claim C6 at a concrete input: \<^verbatim>\<open>package.json\<close> with the query word \<^verbatim>\<open>package\<close> scores
  \<open>15 \<times> 0.8 + 5 = 17\<close>, and \<^verbatim>\<open>docs/index.ts\<close>, which matches no word, scores 5.
\<close>

theorem entry_boost_after_decay_witness:
  "distinct (map fst
      [scanned_entry (js ''package.json'') 2 (js ''.json'') (js ''{}''),
       scanned_entry (js ''docs/index.ts'') 9 (js ''.ts'') (js ''export {}'')])
   \<and> basename (js ''package.json'') \<in> {js ''package.json'', js ''main.py'', js ''index.ts''}
   \<and> basename (js ''docs/index.ts'') \<in> {js ''package.json'', js ''main.py'', js ''index.ts''}
   \<and> fst (calculateRelevance
      [scanned_entry (js ''package.json'') 2 (js ''.json'') (js ''{}''),
       scanned_entry (js ''docs/index.ts'') 9 (js ''.ts'') (js ''export {}'')]
      (js ''package'') None)
     = [(js ''package.json'', 17), (js ''docs/index.ts'', 5)]
   \<and> map relevanceScore (map snd (snd (calculateRelevance
      [scanned_entry (js ''package.json'') 2 (js ''.json'') (js ''{}''),
       scanned_entry (js ''docs/index.ts'') 9 (js ''.ts'') (js ''export {}'')]
      (js ''package'') None)))
     = [17, 5]"
proof -
  define pk where "pk = snd (scanned_entry (js ''package.json'') 2 (js ''.json'') (js ''{}''))"
  define ix where "ix = snd (scanned_entry (js ''docs/index.ts'') 9 (js ''.ts'') (js ''export {}''))"
  define files where "files =
      [scanned_entry (js ''package.json'') 2 (js ''.json'') (js ''{}''),
       scanned_entry (js ''docs/index.ts'') 9 (js ''.ts'') (js ''export {}'')]"
  define q where "q = js ''package''"
  have d: "distinct (map fst files)" unfolding files_def by code_simp
  have m1: "map_of files (js ''package.json'') = Some pk"
    unfolding files_def pk_def by code_simp
  have m2: "map_of files (js ''docs/index.ts'') = Some ix"
    unfolding files_def ix_def by code_simp
  have h1: "basename (js ''package.json'') \<in> {js ''package.json'', js ''main.py'', js ''index.ts''}"
    by code_simp
  have h2: "basename (js ''docs/index.ts'') \<in> {js ''package.json'', js ''main.py'', js ''index.ts''}"
    by code_simp
  have v1: "fadd (apply_decay (extension pk) (toLowerCase (js ''package.json''))
          (additive_score files (queryWords_of q) None (js ''package.json'') pk)) 5 = 17"
    unfolding files_def q_def pk_def by code_simp
  have v2: "fadd (apply_decay (extension ix) (toLowerCase (js ''docs/index.ts''))
          (additive_score files (queryWords_of q) None (js ''docs/index.ts'') ix)) 5 = 5"
    unfolding files_def q_def ix_def by code_simp
  from entry_boost_after_decay [OF d m1 h1, of q None]
  have a1: "map_of (fst (calculateRelevance files q None)) (js ''package.json'') = Some 17"
    and b1: "map_option relevanceScore
        (map_of (snd (calculateRelevance files q None)) (js ''package.json'')) = Some 17"
    by (simp_all only: v1)
  from entry_boost_after_decay [OF d m2 h2, of q None]
  have a2: "map_of (fst (calculateRelevance files q None)) (js ''docs/index.ts'') = Some 5"
    and b2: "map_option relevanceScore
        (map_of (snd (calculateRelevance files q None)) (js ''docs/index.ts'')) = Some 5"
    by (simp_all only: v2)
  have k: "map fst (fst (calculateRelevance files q None)) = [js ''package.json'', js ''docs/index.ts'']"
    unfolding files_def q_def by code_simp
  have k': "map fst (snd (calculateRelevance files q None)) = [js ''package.json'', js ''docs/index.ts'']"
    unfolding files_def q_def by code_simp
  have e: "xs = [(a, va), (b, vb)]"
    if "map fst xs = [a, b]" "distinct [a, b]" "map_of xs a = Some va" "map_of xs b = Some vb"
    for xs :: "(jsstring \<times> rat) list" and a b va vb
    using that by (auto simp: map_eq_Cons_conv)
  have r1: "fst (calculateRelevance files q None) = [(js ''package.json'', 17), (js ''docs/index.ts'', 5)]"
    by (rule e [OF k _ a1 a2]) simp
  have e': "map relevanceScore (map snd xs) = [va, vb]"
    if "map fst xs = [a, b]" "distinct [a, b]"
      "map_option relevanceScore (map_of xs a) = Some va"
      "map_option relevanceScore (map_of xs b) = Some vb"
    for xs :: "(jsstring \<times> FileInfo) list" and a b va vb
    using that by (auto simp: map_eq_Cons_conv)
  have r2: "map relevanceScore (map snd (snd (calculateRelevance files q None))) = [17, 5]"
    by (rule e' [OF k' _ b1 b2]) simp
  from d h1 h2 r1 r2 have "distinct (map fst files)
      \<and> basename (js ''package.json'') \<in> {js ''package.json'', js ''main.py'', js ''index.ts''}
      \<and> basename (js ''docs/index.ts'') \<in> {js ''package.json'', js ''main.py'', js ''index.ts''}
      \<and> fst (calculateRelevance files q None) = [(js ''package.json'', 17), (js ''docs/index.ts'', 5)]
      \<and> map relevanceScore (map snd (snd (calculateRelevance files q None))) = [17, 5]"
    by (simp only: simp_thms)
  then show ?thesis unfolding files_def q_def .
qed


text \<open>
  Claim C7, as amended. Take a query with no word character and without the two characters
  whose lower case contains one, U+0130 (304) and U+212A (8490); the empty query is one.
  Its set of query words is empty, the scoring returns a score for every file of the
  catalog, and the score of a file is 15 if its path is in \<^verbatim>\<open>contextFiles\<close> plus 8 for each
  seed that reaches it, decayed, plus the entry-point boost of its name; without context
  files it is the decay of 0 plus the boost.
\<close>

theorem empty_query_scores:
  assumes "\<forall>c \<in> set query. \<not> is_word c \<and> c \<noteq> 304 \<and> c \<noteq> 8490"
    and "distinct (map fst files)"
    and "25 + 8 * length cf < 2 ^ 53"
  shows "queryWords_of query = []
       \<and> fst (calculateRelevance files query (Some cf))
           = map (\<lambda>e. (fst e,
                entry_boost (toLowerCase (basename (fst e)))
                  (apply_decay (extension (snd e)) (toLowerCase (fst e))
                     (of_nat ((if fst e \<in> set cf then 15 else 0)
                              + 8 * length (filter (reaches files (fst e)) cf)))))) files
       \<and> fst (calculateRelevance files query None)
           = map (\<lambda>e. (fst e,
                entry_boost (toLowerCase (basename (fst e)))
                  (apply_decay (extension (snd e)) (toLowerCase (fst e)) 0))) files"
proof -
  from assms(1) have q: "queryWords_of query = []" by (rule queryWords_of_none)
  have t: "token_score [] rp fi = 0" for rp fi
    by (simp add: token_score_def)
  from assms(3) have b: "25 + 7 * length ([] :: jsstring list) + 8 * length cf < 2 ^ 53" by simp
  have a1: "additive_score files [] (Some cf) rp fi
      = of_nat ((if rp \<in> set cf then 15 else 0) + 8 * length (filter (reaches files rp) cf))"
    for rp fi
    using additive_score_closed(1) [OF b, of files rp fi] by (simp only: t add_0)
  have a2: "additive_score files [] None rp fi = 0" for rp fi
    using additive_score_closed(2) [OF b, of files rp fi] by (simp only: t of_nat_0)
  have f1: "score_entry files [] (Some cf)
      = (\<lambda>e. (fst e,
                entry_boost (toLowerCase (basename (fst e)))
                  (apply_decay (extension (snd e)) (toLowerCase (fst e))
                     (of_nat ((if fst e \<in> set cf then 15 else 0)
                              + 8 * length (filter (reaches files (fst e)) cf))))))"
    by (rule ext) (simp only: score_entry_def file_score_def a1)
  have f2: "score_entry files [] None
      = (\<lambda>e. (fst e,
                entry_boost (toLowerCase (basename (fst e)))
                  (apply_decay (extension (snd e)) (toLowerCase (fst e)) 0)))"
    by (rule ext) (simp only: score_entry_def file_score_def a2)
  have "fst (calculateRelevance files query (Some cf)) = map (score_entry files [] (Some cf)) files"
    using calculateRelevance_scores [OF assms(2), of query "Some cf"] by (simp only: q)
  then have r1: "fst (calculateRelevance files query (Some cf))
           = map (\<lambda>e. (fst e,
                entry_boost (toLowerCase (basename (fst e)))
                  (apply_decay (extension (snd e)) (toLowerCase (fst e))
                     (of_nat ((if fst e \<in> set cf then 15 else 0)
                              + 8 * length (filter (reaches files (fst e)) cf)))))) files"
    by (simp only: f1)
  have "fst (calculateRelevance files query None) = map (score_entry files [] None) files"
    using calculateRelevance_scores [OF assms(2), of query None] by (simp only: q)
  then have r2: "fst (calculateRelevance files query None)
           = map (\<lambda>e. (fst e,
                entry_boost (toLowerCase (basename (fst e)))
                  (apply_decay (extension (snd e)) (toLowerCase (fst e)) 0))) files"
    by (simp only: f2)
  from q r1 r2 show ?thesis by blast
qed

text \<open>
  Claim C7 at a concrete input: the query \<^verbatim>\<open>?! \<close> with one seed, and the empty query with none.
\<close>

theorem empty_query_scores_witness:
  "list_all (\<lambda>c. \<not> is_word c \<and> c \<noteq> 304 \<and> c \<noteq> 8490) (js ''?! '')
   \<and> distinct (map fst [scanned_entry (js ''app.py'') 9 (js ''.py'') (js ''import db''),
         scanned_entry (js ''src/db/client.py'') 8 (js ''.py'') (js ''conn = 1'')])
   \<and> 25 + 8 * length [js ''app.py''] < (2::nat) ^ 53
   \<and> queryWords_of (js ''?! '') = []
   \<and> fst (calculateRelevance [scanned_entry (js ''app.py'') 9 (js ''.py'') (js ''import db''),
         scanned_entry (js ''src/db/client.py'') 8 (js ''.py'') (js ''conn = 1'')]
        (js ''?! '') (Some [js ''app.py'']))
       = [(js ''app.py'', 15), (js ''src/db/client.py'', 8)]
   \<and> fst (calculateRelevance [scanned_entry (js ''app.py'') 9 (js ''.py'') (js ''import db''),
         scanned_entry (js ''src/db/client.py'') 8 (js ''.py'') (js ''conn = 1'')] (js '''') None)
       = [(js ''app.py'', 0), (js ''src/db/client.py'', 0)]"
proof -
  define files where "files = [scanned_entry (js ''app.py'') 9 (js ''.py'') (js ''import db''),
         scanned_entry (js ''src/db/client.py'') 8 (js ''.py'') (js ''conn = 1'')]"
  have h0: "list_all (\<lambda>c. \<not> is_word c \<and> c \<noteq> 304 \<and> c \<noteq> 8490) (js ''?! '')" by code_simp
  then have h1: "\<forall>c \<in> set (js ''?! ''). \<not> is_word c \<and> c \<noteq> 304 \<and> c \<noteq> 8490"
    by (simp only: list_all_iff)
  have h1': "\<forall>c \<in> set (js ''''). \<not> is_word c \<and> c \<noteq> 304 \<and> c \<noteq> 8490"
    by (simp add: js_Nil)
  have h2: "distinct (map fst files)" unfolding files_def by code_simp
  have h3: "25 + 8 * length [js ''app.py''] < (2::nat) ^ 53" by simp
  from empty_query_scores [OF h1 h2 h3] have q: "queryWords_of (js ''?! '') = []" by blast
  from empty_query_scores [OF h1 h2 h3]
  have "fst (calculateRelevance files (js ''?! '') (Some [js ''app.py'']))
      = map (\<lambda>e. (fst e,
                entry_boost (toLowerCase (basename (fst e)))
                  (apply_decay (extension (snd e)) (toLowerCase (fst e))
                     (of_nat ((if fst e \<in> set [js ''app.py''] then 15 else 0)
                              + 8 * length (filter (reaches files (fst e)) [js ''app.py'']))))))
          files"
    by blast
  moreover have "map (\<lambda>e. (fst e,
                entry_boost (toLowerCase (basename (fst e)))
                  (apply_decay (extension (snd e)) (toLowerCase (fst e))
                     (of_nat ((if fst e \<in> set [js ''app.py''] then 15 else 0)
                              + 8 * length (filter (reaches files (fst e)) [js ''app.py'']))))))
          files = [(js ''app.py'', 15), (js ''src/db/client.py'', 8)]"
    unfolding files_def by code_simp
  ultimately have r1: "fst (calculateRelevance files (js ''?! '') (Some [js ''app.py'']))
      = [(js ''app.py'', 15), (js ''src/db/client.py'', 8)]"
    by simp
  from empty_query_scores [OF h1' h2 h3]
  have "fst (calculateRelevance files (js '''') None)
      = map (\<lambda>e. (fst e,
                entry_boost (toLowerCase (basename (fst e)))
                  (apply_decay (extension (snd e)) (toLowerCase (fst e)) 0))) files"
    by blast
  moreover have "map (\<lambda>e. (fst e,
                entry_boost (toLowerCase (basename (fst e)))
                  (apply_decay (extension (snd e)) (toLowerCase (fst e)) 0))) files
      = [(js ''app.py'', 0), (js ''src/db/client.py'', 0)]"
    unfolding files_def by code_simp
  ultimately have r2: "fst (calculateRelevance files (js '''') None)
      = [(js ''app.py'', 0), (js ''src/db/client.py'', 0)]"
    by simp
  from h0 h2 h3 q r1 r2
  have "list_all (\<lambda>c. \<not> is_word c \<and> c \<noteq> 304 \<and> c \<noteq> 8490) (js ''?! '')
      \<and> distinct (map fst files)
      \<and> 25 + 8 * length [js ''app.py''] < (2::nat) ^ 53
      \<and> queryWords_of (js ''?! '') = []
      \<and> fst (calculateRelevance files (js ''?! '') (Some [js ''app.py'']))
          = [(js ''app.py'', 15), (js ''src/db/client.py'', 8)]
      \<and> fst (calculateRelevance files (js '''') None) = [(js ''app.py'', 0), (js ''src/db/client.py'', 0)]"
    by (simp only: simp_thms)
  then show ?thesis unfolding files_def .
qed

text \<open>
  Claim C7 as stated fails for the query that holds the one character U+212A, the Kelvin
  sign. It is not a word character, but its lower case is the letter \<^verbatim>\<open>k\<close>: the set of query
  words is \<^verbatim>\<open>k\<close>, and the file \<^verbatim>\<open>k.ts\<close> scores 15 without any context file, where the claim
  gives the decay of 0, which is 0.
\<close>

theorem empty_query_kelvin_counterexample:
  "list_all (\<lambda>c. \<not> is_word c) [8490]
   \<and> queryWords_of [8490] = [js ''k'']
   \<and> fst (calculateRelevance [scanned_entry (js ''k.ts'') 9 (js ''.ts'') (js ''let a = 1'')]
        [8490] None)
       = [(js ''k.ts'', 15)]
   \<and> entry_boost (toLowerCase (basename (js ''k.ts'')))
        (apply_decay (js ''.ts'') (toLowerCase (js ''k.ts'')) 0) = 0"
  by code_simp


text \<open>
  Claim C10. Every score that \<^verbatim>\<open>calculateRelevance\<close> returns in its map, and every score
  that it writes into a record of the catalog, is at least 0; the three decay factors lie
  in the interval from 0 (excluded) to 1.
\<close>

theorem scores_nonneg:
  "(\<forall>e \<in> set (fst (calculateRelevance files query ctx)). 0 \<le> snd e)
   \<and> (\<forall>e \<in> set (snd (calculateRelevance files query ctx)). 0 \<le> relevanceScore (snd e))
   \<and> 0 < lit_0_5 \<and> lit_0_5 \<le> 1 \<and> 0 < lit_0_7 \<and> lit_0_7 \<le> 1 \<and> 0 < lit_0_8 \<and> lit_0_8 \<le> 1"
proof (intro conjI)
  have "\<forall>e \<in> set (fold (\<lambda>x acc. AList.update (fst x)
          (file_score files (queryWords_of query) ctx (fst x) (snd x)) acc) files []). 0 \<le> snd e"
    by (rule fold_update_values) (simp_all add: file_score_nonneg)
  then show "\<forall>e \<in> set (fst (calculateRelevance files query ctx)). 0 \<le> snd e"
    by (simp add: calculateRelevance_closed)
next
  show "\<forall>e \<in> set (snd (calculateRelevance files query ctx)). 0 \<le> relevanceScore (snd e)"
    by (simp add: calculateRelevance_files scored_entry_def file_score_nonneg)
qed (rule lit_bounds)+

text \<open>
  Claim C10 at a concrete input: a catalog of two files with the scores 17 and 15.
\<close>

theorem scores_nonneg_witness:
  "fst (calculateRelevance [scanned_entry (js ''app.py'') 9 (js ''.py'') (js ''import db''),
         scanned_entry (js ''src/db/client.py'') 8 (js ''.py'') (js ''conn = 1'')] (js ''db conn'') (Some [(js ''app.py'')]))
       = [(js ''app.py'', 17), (js ''src/db/client.py'', 15)]
   \<and> list_all (\<lambda>e. 0 \<le> snd e)
        (fst (calculateRelevance [scanned_entry (js ''app.py'') 9 (js ''.py'') (js ''import db''),
         scanned_entry (js ''src/db/client.py'') 8 (js ''.py'') (js ''conn = 1'')] (js ''db conn'') (Some [(js ''app.py'')])))
   \<and> list_all (\<lambda>e. 0 \<le> relevanceScore (snd e))
        (snd (calculateRelevance [scanned_entry (js ''app.py'') 9 (js ''.py'') (js ''import db''),
         scanned_entry (js ''src/db/client.py'') 8 (js ''.py'') (js ''conn = 1'')] (js ''db conn'') (Some [(js ''app.py'')])))"
proof -
  define files where "files = [scanned_entry (js ''app.py'') 9 (js ''.py'') (js ''import db''),
         scanned_entry (js ''src/db/client.py'') 8 (js ''.py'') (js ''conn = 1'')]"
  have v: "fst (calculateRelevance files (js ''db conn'') (Some [(js ''app.py'')]))
       = [(js ''app.py'', 17), (js ''src/db/client.py'', 15)]"
    unfolding files_def by code_simp
  from scores_nonneg [of files "(js ''db conn'')" "Some [(js ''app.py'')]"]
  have a: "list_all (\<lambda>e. 0 \<le> snd e) (fst (calculateRelevance files (js ''db conn'') (Some [(js ''app.py'')])))"
    and b: "list_all (\<lambda>e. 0 \<le> relevanceScore (snd e))
        (snd (calculateRelevance files (js ''db conn'') (Some [(js ''app.py'')])))"
    unfolding list_all_iff by blast+
  from v a b have "fst (calculateRelevance files (js ''db conn'') (Some [(js ''app.py'')]))
       = [(js ''app.py'', 17), (js ''src/db/client.py'', 15)]
     \<and> list_all (\<lambda>e. 0 \<le> snd e) (fst (calculateRelevance files (js ''db conn'') (Some [(js ''app.py'')])))
     \<and> list_all (\<lambda>e. 0 \<le> relevanceScore (snd e))
        (snd (calculateRelevance files (js ''db conn'') (Some [(js ''app.py'')])))"
    by blast
  then show ?thesis unfolding files_def .
qed



section \<open>The claims about the selector\<close>

text \<open>
  Claim C3. Let the walk of \<^verbatim>\<open>getOptimalContext\<close> over the sorted files reach a candidate
  with the files \<open>sel\<close> selected and \<open>tot\<close> tokens counted, and let the tokens of the
  candidate push the total above \<^verbatim>\<open>maxTokens\<close>. When fewer than \<^verbatim>\<open>minFiles\<close> files are
  selected, the candidate is returned all the same, right after \<open>sel\<close>, and the tokens of
  the returned files pass the budget. When \<^verbatim>\<open>minFiles\<close> files are selected, the returned
  list is the result of the walk over the remaining candidates with the selection and the
  total unchanged: it starts with \<open>sel\<close> and goes on with candidates that come after the
  skipped one, and when the next candidate has a score other than 0 and fits the budget,
  it is returned right after \<open>sel\<close>. The state \<open>(sel, tot)\<close> is the one in which the walk
  over the candidates before it ends. A candidate of score 0 that is over the budget with
  \<^verbatim>\<open>minFiles\<close> files selected ends the walk at the \<^verbatim>\<open>break\<close>; every later candidate has the
  score 0 as well, so the returned list is the one that skipping gives.
\<close>

theorem over_budget_floor_then_skip:
  assumes "sorted_files files query config = pre @ f # rest"
    and "select_loop (cfg_maxTokens config) (cfg_minFiles config) pre [] 0 = (sel, tot)"
    and "cfg_maxTokens config < of_nat (tot + file_tokens f)"
  shows "(of_nat (length sel) < cfg_minFiles config \<longrightarrow>
            fst (getOptimalContext files query config)
              = fst (select_loop (cfg_maxTokens config) (cfg_minFiles config) rest
                  (sel @ [f]) (tot + file_tokens f))
            \<and> take (Suc (length sel)) (fst (getOptimalContext files query config)) = sel @ [f]
            \<and> cfg_maxTokens config
                < of_nat (sum_list (map file_tokens (fst (getOptimalContext files query config)))))
       \<and> (cfg_minFiles config \<le> of_nat (length sel) \<longrightarrow>
            fst (getOptimalContext files query config)
              = fst (select_loop (cfg_maxTokens config) (cfg_minFiles config) rest sel tot)
            \<and> take (length sel) (fst (getOptimalContext files query config)) = sel
            \<and> subseq (drop (length sel) (fst (getOptimalContext files query config))) rest)
       \<and> (cfg_minFiles config \<le> of_nat (length sel) \<and> rest = g # rest'
            \<and> relevanceScore g \<noteq> 0 \<and> of_nat (tot + file_tokens g) \<le> cfg_maxTokens config \<longrightarrow>
            take (Suc (length sel)) (fst (getOptimalContext files query config)) = sel @ [g])"
proof -
  define maxT where "maxT = cfg_maxTokens config"
  define minF where "minF = cfg_minFiles config"
  define res where "res = fst (getOptimalContext files query config)"
  let ?S = "sorted_files files query config"
  have fall: "falling (pre @ f # rest)" and nn: "\<forall>g \<in> set (pre @ f # rest). 0 \<le> relevanceScore g"
    using sortedFiles_falling_nonneg [of files query "Some (cfg_contextFiles config)"] assms(1)
    by (simp_all add: sorted_files_def)
  from fall have fall': "falling (f # rest)"
    using falling_append by blast
  from nn have nn': "\<forall>g \<in> set rest. 0 \<le> relevanceScore g" by simp
  have over: "maxT < of_nat (tot + file_tokens f)"
    using assms(3) by (simp only: maxT_def)
  have pre: "select_loop maxT minF pre [] 0 = (sel, tot)"
    using assms(2) by (simp only: maxT_def minF_def)
  have "res = fst (select_loop maxT minF (pre @ f # rest) [] 0)"
    unfolding res_def maxT_def minF_def by (simp only: getOptimalContext_walk assms(1))
  also have "select_loop maxT minF (pre @ f # rest) [] 0 = select_loop maxT minF (f # rest) sel tot"
    using select_loop_append [OF fall nn, of maxT minF "[]" 0] by (simp only: pre fst_conv snd_conv)
  finally have walk: "res = fst (select_loop maxT minF (f # rest) sel tot)" .
  from select_loop_extends [of pre maxT minF "[]" 0] pre
  have tot: "tot = sum_list (map file_tokens sel)"
    by auto
  have under: "res = fst (select_loop maxT minF rest (sel @ [f]) (tot + file_tokens f))
      \<and> take (Suc (length sel)) res = sel @ [f]
      \<and> maxT < of_nat (sum_list (map file_tokens res))"
    if u: "of_nat (length sel) < minF"
  proof -
    from u over have "select_loop maxT minF (f # rest) sel tot
        = select_loop maxT minF rest (sel @ [f]) (tot + file_tokens f)"
      by simp
    with walk have r: "res = fst (select_loop maxT minF rest (sel @ [f]) (tot + file_tokens f))"
      by simp
    from select_loop_extends [of rest maxT minF "sel @ [f]" "tot + file_tokens f"] obtain ys where
      "select_loop maxT minF rest (sel @ [f]) (tot + file_tokens f)
         = ((sel @ [f]) @ ys, tot + file_tokens f + sum_list (map file_tokens ys))"
      by blast
    with r have e: "res = sel @ f # ys" by simp
    then have t: "take (Suc (length sel)) res = sel @ [f]" by simp
    from e tot have "sum_list (map file_tokens res) = tot + file_tokens f + sum_list (map file_tokens ys)"
      by simp
    then have "(of_nat (tot + file_tokens f) :: rat) \<le> of_nat (sum_list (map file_tokens res))"
      by (simp only: of_nat_le_iff)
    with over have "maxT < of_nat (sum_list (map file_tokens res))" by (rule less_le_trans)
    with r t show ?thesis by blast
  qed
  have skip: "select_loop maxT minF (f # rest) sel tot = select_loop maxT minF rest sel tot"
    if m: "minF \<le> of_nat (length sel)"
  proof (cases "relevanceScore f = 0")
    case True
    from select_skip_tail [OF fall' nn' True m]
    have "select_loop maxT minF rest sel tot = (sel, tot)" .
    with True m show ?thesis by simp
  next
    case False
    with m over show ?thesis by simp
  qed
  have met: "res = fst (select_loop maxT minF rest sel tot)
      \<and> take (length sel) res = sel
      \<and> subseq (drop (length sel) res) rest"
    if m: "minF \<le> of_nat (length sel)"
  proof -
    from walk skip [OF m] have r: "res = fst (select_loop maxT minF rest sel tot)" by simp
    from select_loop_extends [of rest maxT minF sel tot] obtain ys where
      s: "subseq ys rest" and
      "select_loop maxT minF rest sel tot = (sel @ ys, tot + sum_list (map file_tokens ys))"
      by blast
    with r have e: "res = sel @ ys" by simp
    from e have "take (length sel) res = sel" by simp
    moreover from e s have "subseq (drop (length sel) res) rest" by simp
    ultimately show ?thesis using r by blast
  qed
  have later: "take (Suc (length sel)) res = sel @ [g]"
    if m: "minF \<le> of_nat (length sel) \<and> rest = g # rest'
            \<and> relevanceScore g \<noteq> 0 \<and> of_nat (tot + file_tokens g) \<le> maxT"
  proof -
    from m have "select_loop maxT minF rest sel tot
        = select_loop maxT minF rest' (sel @ [g]) (tot + file_tokens g)"
      by simp
    moreover from select_loop_extends [of rest' maxT minF "sel @ [g]" "tot + file_tokens g"]
    obtain ys where
      "select_loop maxT minF rest' (sel @ [g]) (tot + file_tokens g)
         = ((sel @ [g]) @ ys, tot + file_tokens g + sum_list (map file_tokens ys))"
      by blast
    moreover from m met have "res = fst (select_loop maxT minF rest sel tot)" by blast
    ultimately have "res = sel @ g # ys" by simp
    then show ?thesis by simp
  qed
  from under met later show ?thesis
    unfolding res_def maxT_def minF_def by blast
qed

text \<open>
  Claim C3 at a concrete input: three files that score 17, 7 and 2 for the query \<^verbatim>\<open>alpha\<close>, with
  8, 5 and 2 tokens, and a budget of 10 tokens. After the first file the second one is over
  the budget: with \<^verbatim>\<open>minFiles = 2\<close> it is returned and the returned files have 13 tokens;
  with \<^verbatim>\<open>minFiles = 1\<close> it is skipped and the third file is returned.
\<close>

theorem over_budget_floor_then_skip_witness:
  "map path (sorted_files
      [scanned_entry (js ''lib/s.ts'') 5 (js ''.ts'') (js ''alpha''),
       scanned_entry (js ''alpha.ts'') 32 (js ''.ts'') (js ''alpha = 0123456789abcdefghijklmn''),
       scanned_entry (js ''alpha/big.ts'') 20 (js ''.ts'') (js ''alpha 0123456789abcd'')]
      (js ''alpha'')
      \<lparr>maxTokens = Some 10, minFiles = Some 2, maxFileSize = None, contextFiles = None\<rparr>)
     = [js ''alpha.ts'', js ''alpha/big.ts'', js ''lib/s.ts'']
   \<and> map file_tokens (sorted_files
      [scanned_entry (js ''lib/s.ts'') 5 (js ''.ts'') (js ''alpha''),
       scanned_entry (js ''alpha.ts'') 32 (js ''.ts'') (js ''alpha = 0123456789abcdefghijklmn''),
       scanned_entry (js ''alpha/big.ts'') 20 (js ''.ts'') (js ''alpha 0123456789abcd'')]
      (js ''alpha'')
      \<lparr>maxTokens = Some 10, minFiles = Some 2, maxFileSize = None, contextFiles = None\<rparr>)
     = [8, 5, 2]
   \<and> map path (fst (getOptimalContext
      [scanned_entry (js ''lib/s.ts'') 5 (js ''.ts'') (js ''alpha''),
       scanned_entry (js ''alpha.ts'') 32 (js ''.ts'') (js ''alpha = 0123456789abcdefghijklmn''),
       scanned_entry (js ''alpha/big.ts'') 20 (js ''.ts'') (js ''alpha 0123456789abcd'')]
      (js ''alpha'')
      \<lparr>maxTokens = Some 10, minFiles = Some 2, maxFileSize = None, contextFiles = None\<rparr>))
     = [js ''alpha.ts'', js ''alpha/big.ts'']
   \<and> sum_list (map file_tokens (fst (getOptimalContext
      [scanned_entry (js ''lib/s.ts'') 5 (js ''.ts'') (js ''alpha''),
       scanned_entry (js ''alpha.ts'') 32 (js ''.ts'') (js ''alpha = 0123456789abcdefghijklmn''),
       scanned_entry (js ''alpha/big.ts'') 20 (js ''.ts'') (js ''alpha 0123456789abcd'')]
      (js ''alpha'')
      \<lparr>maxTokens = Some 10, minFiles = Some 2, maxFileSize = None, contextFiles = None\<rparr>)))
     = 13
   \<and> map path (fst (getOptimalContext
      [scanned_entry (js ''lib/s.ts'') 5 (js ''.ts'') (js ''alpha''),
       scanned_entry (js ''alpha.ts'') 32 (js ''.ts'') (js ''alpha = 0123456789abcdefghijklmn''),
       scanned_entry (js ''alpha/big.ts'') 20 (js ''.ts'') (js ''alpha 0123456789abcd'')]
      (js ''alpha'')
      \<lparr>maxTokens = Some 10, minFiles = Some 1, maxFileSize = None, contextFiles = None\<rparr>))
     = [js ''alpha.ts'', js ''lib/s.ts'']"
proof -
  define files where "files =
      [scanned_entry (js ''lib/s.ts'') 5 (js ''.ts'') (js ''alpha''),
       scanned_entry (js ''alpha.ts'') 32 (js ''.ts'') (js ''alpha = 0123456789abcdefghijklmn''),
       scanned_entry (js ''alpha/big.ts'') 20 (js ''.ts'') (js ''alpha 0123456789abcd'')]"
  define q where "q = js ''alpha''"
  define cfg2 where "cfg2 =
      \<lparr>maxTokens = Some 10, minFiles = Some 2, maxFileSize = None, contextFiles = None\<rparr>"
  define cfg1 where "cfg1 =
      \<lparr>maxTokens = Some 10, minFiles = Some 1, maxFileSize = None, contextFiles = None\<rparr>"
  define top where "top = (snd (scanned_entry (js ''alpha.ts'') 32 (js ''.ts'')
      (js ''alpha = 0123456789abcdefghijklmn'')))\<lparr>relevanceScore := 17\<rparr>"
  define big where "big = (snd (scanned_entry (js ''alpha/big.ts'') 20 (js ''.ts'')
      (js ''alpha 0123456789abcd'')))\<lparr>relevanceScore := 7\<rparr>"
  define small where "small = (snd (scanned_entry (js ''lib/s.ts'') 5 (js ''.ts'')
      (js ''alpha'')))\<lparr>relevanceScore := 2\<rparr>"
  have s2: "sorted_files files q cfg2 = [top] @ big # [small]"
    unfolding files_def q_def cfg2_def top_def big_def small_def by code_simp
  have s1: "sorted_files files q cfg1 = [top] @ big # [small]"
    unfolding files_def q_def cfg1_def top_def big_def small_def by code_simp
  have p2: "select_loop (cfg_maxTokens cfg2) (cfg_minFiles cfg2) [top] [] 0 = ([top], 8)"
    unfolding cfg2_def top_def by code_simp
  have p1: "select_loop (cfg_maxTokens cfg1) (cfg_minFiles cfg1) [top] [] 0 = ([top], 8)"
    unfolding cfg1_def top_def by code_simp
  have o2: "cfg_maxTokens cfg2 < of_nat (8 + file_tokens big)"
    unfolding cfg2_def big_def by code_simp
  have o1: "cfg_maxTokens cfg1 < of_nat (8 + file_tokens big)"
    unfolding cfg1_def big_def by code_simp
  have u2: "of_nat (length [top]) < cfg_minFiles cfg2"
    unfolding cfg2_def by code_simp
  have m1: "cfg_minFiles cfg1 \<le> of_nat (length [top])"
    unfolding cfg1_def by code_simp
  from over_budget_floor_then_skip [OF s2 p2 o2] u2
  have "fst (getOptimalContext files q cfg2)
      = fst (select_loop (cfg_maxTokens cfg2) (cfg_minFiles cfg2) [small]
          ([top] @ [big]) (8 + file_tokens big))"
    by blast
  moreover have "fst (select_loop (cfg_maxTokens cfg2) (cfg_minFiles cfg2) [small]
          ([top] @ [big]) (8 + file_tokens big)) = [top, big]"
    unfolding cfg2_def top_def big_def small_def by code_simp
  ultimately have r2: "fst (getOptimalContext files q cfg2) = [top, big]" by simp
  from over_budget_floor_then_skip [OF s1 p1 o1] m1
  have "fst (getOptimalContext files q cfg1)
      = fst (select_loop (cfg_maxTokens cfg1) (cfg_minFiles cfg1) [small] [top] 8)"
    by blast
  moreover have "fst (select_loop (cfg_maxTokens cfg1) (cfg_minFiles cfg1) [small] [top] 8)
      = [top, small]"
    unfolding cfg1_def top_def small_def by code_simp
  ultimately have r1: "fst (getOptimalContext files q cfg1) = [top, small]" by simp
  have v: "map path [top, big, small] = [js ''alpha.ts'', js ''alpha/big.ts'', js ''lib/s.ts'']"
    "map file_tokens [top, big, small] = [8, 5, 2]"
    "map path [top, big] = [js ''alpha.ts'', js ''alpha/big.ts'']"
    "sum_list (map file_tokens [top, big]) = 13"
    "map path [top, small] = [js ''alpha.ts'', js ''lib/s.ts'']"
    unfolding top_def big_def small_def by code_simp+
  from s2 have s2': "sorted_files files q cfg2 = [top, big, small]" by simp
  have "map path (sorted_files files q cfg2) = [js ''alpha.ts'', js ''alpha/big.ts'', js ''lib/s.ts'']
      \<and> map file_tokens (sorted_files files q cfg2) = [8, 5, 2]
      \<and> map path (fst (getOptimalContext files q cfg2)) = [js ''alpha.ts'', js ''alpha/big.ts'']
      \<and> sum_list (map file_tokens (fst (getOptimalContext files q cfg2))) = 13
      \<and> map path (fst (getOptimalContext files q cfg1)) = [js ''alpha.ts'', js ''lib/s.ts'']"
    unfolding s2' r2 r1 using v by (simp only: simp_thms)
  then show ?thesis unfolding files_def q_def cfg2_def cfg1_def .
qed


text \<open>
  Claim C4. The list that \<^verbatim>\<open>getOptimalContext\<close> walks over is the files with a score other
  than 0 followed by the files with score 0. The returned list is what the walk selects among
  the first, followed by the first files of score 0, as many as are missing to reach
  \<^verbatim>\<open>minFiles\<close>, whatever the budget: the walk stops at a file of score 0 exactly when
  \<^verbatim>\<open>minFiles\<close> files are selected. When every score of the catalog is 0 for the query, the
  sorted list is the catalog in its own order and the returned list is its first
  \<^verbatim>\<open>minFiles\<close> files; for 5 files and \<^verbatim>\<open>minFiles = 3\<close> exactly 3 files are returned.
\<close>

theorem floor_guarantee:
  "list_all (\<lambda>f. relevanceScore f = 0)
      (dropWhile (\<lambda>f. relevanceScore f \<noteq> 0) (sorted_files files query config))
   \<and> fst (getOptimalContext files query config)
       = fst (select_loop (cfg_maxTokens config) (cfg_minFiles config)
           (takeWhile (\<lambda>f. relevanceScore f \<noteq> 0) (sorted_files files query config)) [] 0)
         @ take (nat \<lceil>cfg_minFiles config\<rceil>
                 - length (fst (select_loop (cfg_maxTokens config) (cfg_minFiles config)
                     (takeWhile (\<lambda>f. relevanceScore f \<noteq> 0) (sorted_files files query config)) [] 0)))
             (dropWhile (\<lambda>f. relevanceScore f \<noteq> 0) (sorted_files files query config))
   \<and> (distinct (map fst files)
        \<and> (\<forall>e \<in> set (fst (calculateRelevance files query (Some (cfg_contextFiles config)))). snd e = 0)
      \<longrightarrow> sorted_files files query config
            = map snd (snd (calculateRelevance files query (Some (cfg_contextFiles config))))
          \<and> fst (getOptimalContext files query config)
            = take (nat \<lceil>cfg_minFiles config\<rceil>) (sorted_files files query config))
   \<and> (distinct (map fst files)
        \<and> (\<forall>e \<in> set (fst (calculateRelevance files query (Some (cfg_contextFiles config)))). snd e = 0)
        \<and> length files = 5 \<and> cfg_minFiles config = 3
      \<longrightarrow> length (fst (getOptimalContext files query config)) = 3)"
proof -
  define maxT where "maxT = cfg_maxTokens config"
  define minF where "minF = cfg_minFiles config"
  define S where "S = sorted_files files query config"
  define nz where "nz = takeWhile (\<lambda>f. relevanceScore f \<noteq> 0) S"
  define zs where "zs = dropWhile (\<lambda>f. relevanceScore f \<noteq> 0) S"
  let ?ctx = "Some (cfg_contextFiles config)"
  let ?qw = "queryWords_of query"
  let ?vals = "map snd (snd (calculateRelevance files query ?ctx))"
  have fall: "falling S" and nn: "\<forall>g \<in> set S. 0 \<le> relevanceScore g"
    using sortedFiles_falling_nonneg [of files query ?ctx]
    by (simp_all add: S_def sorted_files_def)
  have S: "S = nz @ zs" by (simp add: nz_def zs_def)
  have z: "\<forall>g \<in> set zs. relevanceScore g = 0"
    unfolding zs_def using fall nn by (rule dropWhile_zero)
  then have c1: "list_all (\<lambda>f. relevanceScore f = 0) zs"
    by (simp only: list_all_iff)
  have walk: "fst (getOptimalContext files query config) = fst (select_loop maxT minF S [] 0)"
    unfolding maxT_def minF_def S_def by (rule getOptimalContext_walk)
  from fall nn have "select_loop maxT minF (nz @ zs) [] 0
      = select_loop maxT minF zs (fst (select_loop maxT minF nz [] 0))
          (snd (select_loop maxT minF nz [] 0))"
    unfolding S by (rule select_loop_append)
  with walk have "fst (getOptimalContext files query config)
      = fst (select_loop maxT minF zs (fst (select_loop maxT minF nz [] 0))
          (snd (select_loop maxT minF nz [] 0)))"
    by (simp only: S)
  also have "\<dots> = fst (select_loop maxT minF nz [] 0)
      @ take (nat \<lceil>minF\<rceil> - length (fst (select_loop maxT minF nz [] 0))) zs"
    using z by (rule select_all_zero)
  finally have c2: "fst (getOptimalContext files query config)
      = fst (select_loop maxT minF nz [] 0)
        @ take (nat \<lceil>minF\<rceil> - length (fst (select_loop maxT minF nz [] 0))) zs" .
  have c3: "S = ?vals \<and> fst (getOptimalContext files query config) = take (nat \<lceil>minF\<rceil>) S"
    if a: "distinct (map fst files)
        \<and> (\<forall>e \<in> set (fst (calculateRelevance files query ?ctx)). snd e = 0)"
  proof -
    from a have "\<forall>e \<in> set (map (score_entry files ?qw ?ctx) files). snd e = 0"
      by (simp add: calculateRelevance_scores)
    then have z0: "\<forall>e \<in> set files. file_score files ?qw ?ctx (fst e) (snd e) = 0"
      by (simp add: score_entry_def)
    have v: "?vals = map (\<lambda>e. (snd e)\<lparr>relevanceScore := file_score files ?qw ?ctx (fst e) (snd e)\<rparr>) files"
      by (simp add: calculateRelevance_files scored_entry_def comp_def)
    with z0 have zero: "\<forall>f \<in> set ?vals. relevanceScore f = 0"
      by simp
    then have "\<forall>f \<in> set ?vals. - relevanceScore f = 0" by simp
    then have "sort_by_score ?vals = ?vals"
      unfolding sort_by_score_def by (rule sort_key_const)
    then have s: "S = ?vals" by (simp add: S_def sorted_files_def)
    from zero s have "\<forall>f \<in> set S. relevanceScore f = 0" by simp
    from select_all_zero [OF this, of maxT minF "[]" 0] walk
    have "fst (getOptimalContext files query config) = take (nat \<lceil>minF\<rceil>) S"
      by simp
    with s show ?thesis by blast
  qed
  have c4: "length (fst (getOptimalContext files query config)) = 3"
    if a: "distinct (map fst files)
        \<and> (\<forall>e \<in> set (fst (calculateRelevance files query ?ctx)). snd e = 0)
        \<and> length files = 5 \<and> minF = 3"
  proof -
    from a c3 have s: "S = ?vals" and r: "fst (getOptimalContext files query config) = take (nat \<lceil>minF\<rceil>) S"
      by blast+
    have "length ?vals = length files" by (simp add: calculateRelevance_files)
    with a s have "length S = 5" by simp
    with r a show ?thesis by simp
  qed
  from c1 c2 c3 c4 show ?thesis
    unfolding maxT_def minF_def S_def nz_def zs_def by blast
qed

text \<open>
  Claim C4 at a concrete input. Five files that score 0 for the query \<^verbatim>\<open>zzz\<close>, a budget of one
  token and \<^verbatim>\<open>minFiles = 3\<close>: the first three files are returned. Four files of which the
  second scores 17 for the query, with the default \<^verbatim>\<open>minFiles\<close> of 3: the file that scores and
  the first two of the others are returned.
\<close>

theorem floor_guarantee_witness:
  "distinct (map fst
      [scanned_entry (js ''a.ts'') 5 (js ''.ts'') (js ''let a''),
       scanned_entry (js ''b.ts'') 5 (js ''.ts'') (js ''let b''),
       scanned_entry (js ''c.py'') 5 (js ''.py'') (js ''c = 1''),
       scanned_entry (js ''d.md'') 3 (js ''.md'') (js ''# d''),
       scanned_entry (js ''e.go'') 5 (js ''.go'') (js ''var e'')])
   \<and> fst (calculateRelevance
      [scanned_entry (js ''a.ts'') 5 (js ''.ts'') (js ''let a''),
       scanned_entry (js ''b.ts'') 5 (js ''.ts'') (js ''let b''),
       scanned_entry (js ''c.py'') 5 (js ''.py'') (js ''c = 1''),
       scanned_entry (js ''d.md'') 3 (js ''.md'') (js ''# d''),
       scanned_entry (js ''e.go'') 5 (js ''.go'') (js ''var e'')] (js ''zzz'')
      (Some (cfg_contextFiles
        \<lparr>maxTokens = Some 1, minFiles = Some 3, maxFileSize = None, contextFiles = None\<rparr>)))
     = [(js ''a.ts'', 0), (js ''b.ts'', 0), (js ''c.py'', 0), (js ''d.md'', 0), (js ''e.go'', 0)]
   \<and> length (fst (getOptimalContext
      [scanned_entry (js ''a.ts'') 5 (js ''.ts'') (js ''let a''),
       scanned_entry (js ''b.ts'') 5 (js ''.ts'') (js ''let b''),
       scanned_entry (js ''c.py'') 5 (js ''.py'') (js ''c = 1''),
       scanned_entry (js ''d.md'') 3 (js ''.md'') (js ''# d''),
       scanned_entry (js ''e.go'') 5 (js ''.go'') (js ''var e'')] (js ''zzz'')
      \<lparr>maxTokens = Some 1, minFiles = Some 3, maxFileSize = None, contextFiles = None\<rparr>)) = 3
   \<and> map path (fst (getOptimalContext
      [scanned_entry (js ''a.ts'') 5 (js ''.ts'') (js ''let a''),
       scanned_entry (js ''b.ts'') 5 (js ''.ts'') (js ''let b''),
       scanned_entry (js ''c.py'') 5 (js ''.py'') (js ''c = 1''),
       scanned_entry (js ''d.md'') 3 (js ''.md'') (js ''# d''),
       scanned_entry (js ''e.go'') 5 (js ''.go'') (js ''var e'')] (js ''zzz'')
      \<lparr>maxTokens = Some 1, minFiles = Some 3, maxFileSize = None, contextFiles = None\<rparr>))
     = [js ''a.ts'', js ''b.ts'', js ''c.py'']
   \<and> map relevanceScore (sorted_files
      [scanned_entry (js ''a.ts'') 5 (js ''.ts'') (js ''let a''),
       scanned_entry (js ''hit/zzz.ts'') 3 (js ''.ts'') (js ''zzz''),
       scanned_entry (js ''b.ts'') 5 (js ''.ts'') (js ''let b''),
       scanned_entry (js ''c.py'') 5 (js ''.py'') (js ''c = 1'')] (js ''zzz'')
      \<lparr>maxTokens = None, minFiles = None, maxFileSize = None, contextFiles = None\<rparr>)
     = [17, 0, 0, 0]
   \<and> map path (fst (getOptimalContext
      [scanned_entry (js ''a.ts'') 5 (js ''.ts'') (js ''let a''),
       scanned_entry (js ''hit/zzz.ts'') 3 (js ''.ts'') (js ''zzz''),
       scanned_entry (js ''b.ts'') 5 (js ''.ts'') (js ''let b''),
       scanned_entry (js ''c.py'') 5 (js ''.py'') (js ''c = 1'')] (js ''zzz'')
      \<lparr>maxTokens = None, minFiles = None, maxFileSize = None, contextFiles = None\<rparr>))
     = [js ''hit/zzz.ts'', js ''a.ts'', js ''b.ts'']"
proof -
  define files where "files =
      [scanned_entry (js ''a.ts'') 5 (js ''.ts'') (js ''let a''),
       scanned_entry (js ''b.ts'') 5 (js ''.ts'') (js ''let b''),
       scanned_entry (js ''c.py'') 5 (js ''.py'') (js ''c = 1''),
       scanned_entry (js ''d.md'') 3 (js ''.md'') (js ''# d''),
       scanned_entry (js ''e.go'') 5 (js ''.go'') (js ''var e'')]"
  define cfg where "cfg =
      \<lparr>maxTokens = Some 1, minFiles = Some 3, maxFileSize = None, contextFiles = None\<rparr>"
  define mixed where "mixed =
      [scanned_entry (js ''a.ts'') 5 (js ''.ts'') (js ''let a''),
       scanned_entry (js ''hit/zzz.ts'') 3 (js ''.ts'') (js ''zzz''),
       scanned_entry (js ''b.ts'') 5 (js ''.ts'') (js ''let b''),
       scanned_entry (js ''c.py'') 5 (js ''.py'') (js ''c = 1'')]"
  define dflt where "dflt =
      \<lparr>maxTokens = None, minFiles = None, maxFileSize = None, contextFiles = None\<rparr>"
  define q where "q = js ''zzz''"
  have h1: "distinct (map fst files)" unfolding files_def by code_simp
  have v: "fst (calculateRelevance files q (Some (cfg_contextFiles cfg)))
      = [(js ''a.ts'', 0), (js ''b.ts'', 0), (js ''c.py'', 0), (js ''d.md'', 0), (js ''e.go'', 0)]"
    unfolding files_def cfg_def q_def by code_simp
  have h2: "\<forall>e \<in> set (fst (calculateRelevance files q (Some (cfg_contextFiles cfg)))). snd e = 0"
    unfolding v by simp
  have n: "length files = 5 \<and> cfg_minFiles cfg = 3"
    unfolding files_def cfg_def by (simp add: cfg_minFiles_def)
  from floor_guarantee [of files q cfg] h1 h2 n
  have l: "length (fst (getOptimalContext files q cfg)) = 3"
    by blast
  from floor_guarantee [of files q cfg] h1 h2
  have "fst (getOptimalContext files q cfg) = take (nat \<lceil>cfg_minFiles cfg\<rceil>) (sorted_files files q cfg)"
    by blast
  moreover have "map path (take (nat \<lceil>cfg_minFiles cfg\<rceil>) (sorted_files files q cfg))
      = [js ''a.ts'', js ''b.ts'', js ''c.py'']"
    unfolding files_def cfg_def q_def by code_simp
  ultimately have p: "map path (fst (getOptimalContext files q cfg)) = [js ''a.ts'', js ''b.ts'', js ''c.py'']"
    by simp
  have s: "map relevanceScore (sorted_files mixed q dflt) = [17, 0, 0, 0]"
    unfolding mixed_def dflt_def q_def by code_simp
  from floor_guarantee [of mixed q dflt]
  have "fst (getOptimalContext mixed q dflt)
       = fst (select_loop (cfg_maxTokens dflt) (cfg_minFiles dflt)
           (takeWhile (\<lambda>f. relevanceScore f \<noteq> 0) (sorted_files mixed q dflt)) [] 0)
         @ take (nat \<lceil>cfg_minFiles dflt\<rceil>
                 - length (fst (select_loop (cfg_maxTokens dflt) (cfg_minFiles dflt)
                     (takeWhile (\<lambda>f. relevanceScore f \<noteq> 0) (sorted_files mixed q dflt)) [] 0)))
             (dropWhile (\<lambda>f. relevanceScore f \<noteq> 0) (sorted_files mixed q dflt))"
    by blast
  moreover have "map path (fst (select_loop (cfg_maxTokens dflt) (cfg_minFiles dflt)
           (takeWhile (\<lambda>f. relevanceScore f \<noteq> 0) (sorted_files mixed q dflt)) [] 0)
         @ take (nat \<lceil>cfg_minFiles dflt\<rceil>
                 - length (fst (select_loop (cfg_maxTokens dflt) (cfg_minFiles dflt)
                     (takeWhile (\<lambda>f. relevanceScore f \<noteq> 0) (sorted_files mixed q dflt)) [] 0)))
             (dropWhile (\<lambda>f. relevanceScore f \<noteq> 0) (sorted_files mixed q dflt)))
      = [js ''hit/zzz.ts'', js ''a.ts'', js ''b.ts'']"
    unfolding mixed_def dflt_def q_def by code_simp
  ultimately have p': "map path (fst (getOptimalContext mixed q dflt))
      = [js ''hit/zzz.ts'', js ''a.ts'', js ''b.ts'']"
    by simp
  from h1 v l p s p' have "distinct (map fst files)
      \<and> fst (calculateRelevance files q (Some (cfg_contextFiles cfg)))
          = [(js ''a.ts'', 0), (js ''b.ts'', 0), (js ''c.py'', 0), (js ''d.md'', 0), (js ''e.go'', 0)]
      \<and> length (fst (getOptimalContext files q cfg)) = 3
      \<and> map path (fst (getOptimalContext files q cfg)) = [js ''a.ts'', js ''b.ts'', js ''c.py'']
      \<and> map relevanceScore (sorted_files mixed q dflt) = [17, 0, 0, 0]
      \<and> map path (fst (getOptimalContext mixed q dflt)) = [js ''hit/zzz.ts'', js ''a.ts'', js ''b.ts'']"
    by (simp only: simp_thms)
  then show ?thesis unfolding files_def cfg_def mixed_def dflt_def q_def .
qed


text \<open>
  Claim C8. Scoring and then selecting, twice in a row on the same catalog object with the
  same query and configuration: the second scoring returns the map of scores and the
  catalog of the first, and the second selection returns the list of the first, in the
  same order. The sort keeps the files of equal score in the order they had.
\<close>

theorem scoring_selection_deterministic:
  "calculateRelevance (snd (getOptimalContext (snd (calculateRelevance files query ctx)) query config))
       query ctx
     = calculateRelevance files query ctx
   \<and> getOptimalContext
       (snd (calculateRelevance
          (snd (getOptimalContext (snd (calculateRelevance files query ctx)) query config))
          query ctx))
       query config
     = getOptimalContext (snd (calculateRelevance files query ctx)) query config
   \<and> filter (\<lambda>f. relevanceScore f = k) (sort_by_score fs) = filter (\<lambda>f. relevanceScore f = k) fs"
  by (simp only: calculateRelevance_after_selection getOptimalContext_after_scoring
      sort_by_score_stable)

end
